theory Spec2Isabelle
  imports Main "HOL-Library.AList" "HOL-Library.Monad_Syntax"
begin

section \<open>JavaScript values\<close>

text \<open>
  The hooks and components receive values typed \<open>any\<close> or \<open>unknown\<close>, so the cached
  data and the cell values are modelled as untyped JavaScript values. Numbers are the
  integers (exact in JavaScript between \<open>-(2^53 - 1)\<close> and \<open>2^53 - 1\<close>); an object
  is the list of its own properties in insertion order. A \<open>TypeError\<close> thrown by the
  source is the result \<open>None\<close>.
\<close>

datatype jsval =
    JUndefined
  | JNull
  | JBool bool
  | JNum int
  | JStr string
  | JArr "jsval list"
  | JObj "(string \<times> jsval) list"

text \<open>Truthiness, as \<open>!v\<close>, \<open>v || d\<close> and \<open>if (v)\<close> test it.\<close>

fun truthy :: "jsval \<Rightarrow> bool" where
  "truthy JUndefined = False"
| "truthy JNull = False"
| "truthy (JBool b) = b"
| "truthy (JNum n) = (n \<noteq> 0)"
| "truthy (JStr s) = (s \<noteq> [])"
| "truthy (JArr xs) = True"
| "truthy (JObj ps) = True"

fun nullish :: "jsval \<Rightarrow> bool" where
  "nullish JUndefined = True"
| "nullish JNull = True"
| "nullish v = False"

text \<open>
  Reading a property of a value that is neither \<open>null\<close> nor \<open>undefined\<close>: an own
  property of an object, the \<open>length\<close> of an array or a string, and \<open>undefined\<close> for
  every other name the source reads (\<open>data\<close>, \<open>users\<close>, \<open>userId\<close>, \<open>status\<close>,
  \<open>groupId\<close>, \<open>groupName\<close>).
\<close>

fun propOf :: "jsval \<Rightarrow> string \<Rightarrow> jsval" where
  "propOf (JObj ps) k = (case map_of ps k of Some v \<Rightarrow> v | None \<Rightarrow> JUndefined)"
| "propOf (JArr xs) k = (if k = ''length'' then JNum (int (length xs)) else JUndefined)"
| "propOf (JStr s) k = (if k = ''length'' then JNum (int (length s)) else JUndefined)"
| "propOf v k = JUndefined"

text \<open>\<open>v.k\<close> throws on \<open>null\<close> and \<open>undefined\<close>; \<open>v?.k\<close> gives \<open>undefined\<close> there.\<close>

definition getprop :: "jsval \<Rightarrow> string \<Rightarrow> jsval option" where
  "getprop v k = (if nullish v then None else Some (propOf v k))"

definition optChain :: "jsval \<Rightarrow> string \<Rightarrow> jsval" where
  "optChain v k = (if nullish v then JUndefined else propOf v k)"

text \<open>
  \<open>{...v, k: x}\<close>: the own properties of \<open>v\<close>, with \<open>k\<close> set to \<open>x\<close> in place when
  \<open>v\<close> has it and appended otherwise. The source spreads only values it has read a
  property from, which are objects.
\<close>

fun ownProps :: "jsval \<Rightarrow> (string \<times> jsval) list" where
  "ownProps (JObj ps) = ps"
| "ownProps v = []"

definition spreadWith :: "jsval \<Rightarrow> string \<Rightarrow> jsval \<Rightarrow> jsval" where
  "spreadWith v k x = JObj (AList.update k x (ownProps v))"

text \<open>
  \<open>xs.map(f)\<close>: only an array has a callable \<open>map\<close>; the callback's first throw ends
  the loop.
\<close>

fun mapM :: "('a \<Rightarrow> 'b option) \<Rightarrow> 'a list \<Rightarrow> 'b list option" where
  "mapM f [] = Some []"
| "mapM f (x # xs) =
     (case f x of
        None \<Rightarrow> None
      | Some y \<Rightarrow> (case mapM f xs of None \<Rightarrow> None | Some ys \<Rightarrow> Some (y # ys)))"

fun arrayMap :: "(jsval \<Rightarrow> 'b option) \<Rightarrow> jsval \<Rightarrow> 'b list option" where
  "arrayMap f (JArr xs) = mapM f xs"
| "arrayMap f v = None"

section \<open>Column resolver (DynamicGrid.tsx)\<close>

text \<open>
  \<open>ColumnMetadata\<close>, its fields \<open>key\<close>, \<open>header\<close>, \<open>type\<close>, \<open>width\<close> and \<open>format\<close>
  written with the prefix \<open>col\<close>. The type is a string, so that the \<open>default\<close>
  branch of the switch is a branch here.
\<close>

record ColumnMetadata =
  colKey :: string
  colHeader :: string
  colType :: string
  colWidth :: "int option"
  colFormat :: "string option"

text \<open>What \<open>renderCellByType\<close> returns: the React node of one cell.\<close>

datatype node =
    Raw jsval
  | BadgeChip jsval string
  | DateText string
  | NoGroups
  | ChipBox "(jsval \<times> jsval) list"
  | Stringified jsval

text \<open>One \<open><Chip key={group.groupId} label={group.groupName}/>\<close>, as (key, label).\<close>

definition groupChip :: "jsval \<Rightarrow> (jsval \<times> jsval) option" where
  "groupChip g =
     do { k \<leftarrow> getprop g ''groupId'';
          l \<leftarrow> getprop g ''groupName'';
          Some (k, l) }"

text \<open>
  \<open>renderCellByType\<close>. \<open>formatDate\<close> is imported from \<open>@/utils\<close> and is a parameter
  here. In the \<open>chiplist\<close> case \<open>groups.length\<close> is read only when \<open>groups\<close> is
  truthy, so the read cannot throw.
\<close>

definition renderCellByType ::
  "(jsval \<Rightarrow> string option \<Rightarrow> string) \<Rightarrow> jsval \<Rightarrow> ColumnMetadata \<Rightarrow> node option" where
  "renderCellByType formatDate v columnMeta =
     (if colType columnMeta = ''string'' then Some (Raw v)
      else if colType columnMeta = ''badge'' then
        Some (BadgeChip v (if v = JStr ''active'' then ''success'' else ''default''))
      else if colType columnMeta = ''date'' then
        Some (DateText (formatDate v (colFormat columnMeta)))
      else if colType columnMeta = ''chiplist'' then
        (if \<not> truthy v \<or> propOf v ''length'' = JNum 0 then Some NoGroups
         else map_option ChipBox (arrayMap groupChip v))
      else Some (Stringified v))"

text \<open>A group \<open>{groupId, groupName}\<close> of the \<open>Group\<close> type, as a value.\<close>

definition groupVal :: "string \<times> string \<Rightarrow> jsval" where
  "groupVal g = JObj [(''groupId'', JStr (fst g)), (''groupName'', JStr (snd g))]"

definition chipOf :: "string \<times> string \<Rightarrow> jsval \<times> jsval" where
  "chipOf g = (JStr (fst g), JStr (snd g))"

section \<open>Optimistic update of one cached value (useUsers.ts)\<close>

text \<open>
  The callback of \<open>users.map\<close> in the updater:
  \<open>user.userId === userId ? { ...user, status } : user\<close>.
\<close>

definition updateUser :: "string \<Rightarrow> string \<Rightarrow> jsval \<Rightarrow> jsval option" where
  "updateUser userId status user =
     do { uid \<leftarrow> getprop user ''userId'';
          Some (if uid = JStr userId then spreadWith user ''status'' (JStr status) else user) }"

text \<open>
  The updater handed to \<open>setQueriesData\<close>. Past the guard \<open>old\<close> and \<open>old.data\<close>
  are neither \<open>null\<close> nor \<open>undefined\<close>, so \<open>old.data.users\<close> is read without
  a throw; \<open>.map\<close> throws when \<open>users\<close> is not an array.
\<close>

definition optimisticUpdater :: "string \<Rightarrow> string \<Rightarrow> jsval \<Rightarrow> jsval option" where
  "optimisticUpdater userId status old =
     (if \<not> truthy (optChain (optChain old ''data'') ''users'') then Some old
      else
        do { users \<leftarrow> arrayMap (updateUser userId status) (propOf (propOf old ''data'') ''users'');
             Some (spreadWith old ''data''
                     (spreadWith (propOf old ''data'') ''users'' (JArr users))) })"

section \<open>JavaScript numbers (arithmetic, Number.prototype.toString, parseInt)\<close>

text \<open>
  The page computes with page numbers, which are JavaScript numbers: IEEE doubles.
  Every number the page handles is \<open>NaN\<close>, an infinity, or an integer, so a number is
  one of these. Negative zero is not told apart from zero: the page only adds to a
  number, prints it and puts it in a query key, and none of these tells them apart.
\<close>

datatype jsnum = NaN | PosInfinity | NegInfinity | Fin int

text \<open>The number of binary digits of a natural number.\<close>

fun bitLength :: "nat \<Rightarrow> nat" where
  "bitLength n = (if n = 0 then 0 else Suc (bitLength (n div 2)))"

declare bitLength.simps [simp del]

text \<open>
  The double nearest to an integer: the integer itself below \<open>2^53\<close>; beyond, the
  upper 53 binary digits, rounded to nearest with ties to the even one, and an
  infinity from \<open>2^1024\<close> on.
\<close>

definition roundDouble :: "int \<Rightarrow> jsnum" where
  "roundDouble n =
     (let a = nat \<bar>n\<bar>
      in if a < 2 ^ 53 then Fin n
         else
           let e = bitLength a - 53;
               q = a div 2 ^ e;
               r = a mod 2 ^ e;
               h = 2 ^ (e - 1);
               m = (if h < r \<or> (r = h \<and> odd q) then q + 1 else q);
               v = m * 2 ^ e
           in if 2 ^ 1024 \<le> v then (if n < 0 then NegInfinity else PosInfinity)
              else Fin (if n < 0 then - int v else int v))"

text \<open>\<open>x + k\<close> for an integer \<open>k\<close> (the page adds and subtracts 1).\<close>

definition numAdd :: "jsnum \<Rightarrow> int \<Rightarrow> jsnum" where
  "numAdd x k = (case x of Fin n \<Rightarrow> roundDouble (n + k) | _ \<Rightarrow> x)"

text \<open>A number that is a double: the value of a JavaScript number.\<close>

definition isDouble :: "jsnum \<Rightarrow> bool" where
  "isDouble x = (case x of Fin n \<Rightarrow> roundDouble n = Fin n | _ \<Rightarrow> True)"

text \<open>A string is a list of 8-bit characters. The decimal numeral of a natural number.\<close>

definition digitChar :: "nat \<Rightarrow> char" where
  "digitChar d = char_of (48 + d)"

fun natToString :: "nat \<Rightarrow> string" where
  "natToString n =
     (if n < 10 then [digitChar n] else natToString (n div 10) @ [digitChar (n mod 10)])"

declare natToString.simps [simp del]

text \<open>
  \<open>toString\<close> prints the decimal number with the fewest significant digits among
  those whose nearest double is the number, and of these the nearest to it. Such a
  number is a multiple of the largest power of ten that has a multiple with that
  nearest double: \<open>shortestDecimal p x\<close> looks for it from \<open>10^p\<close> downwards.
\<close>

fun shortestDecimal :: "nat \<Rightarrow> nat \<Rightarrow> nat" where
  "shortestDecimal 0 x = x"
| "shortestDecimal (Suc p) x =
     (let t = 10 ^ Suc p;
          lo = (x div t) * t;
          hi = lo + t;
          okLo = (0 < lo \<and> roundDouble (int lo) = Fin (int x));
          okHi = (roundDouble (int hi) = Fin (int x))
      in if okLo \<and> okHi then
           (if x - lo < hi - x then lo
            else if hi - x < x - lo then hi
            else if even (x div t) then lo else hi)
         else if okLo then lo
         else if okHi then hi
         else shortestDecimal p x)"

text \<open>
  A decimal of at most 21 digits is printed in full; a longer one in exponent
  notation, its significant digits with a point after the first, then \<open>e+\<close> and the
  exponent.
\<close>

definition printDecimal :: "nat \<Rightarrow> string" where
  "printDecimal v =
     (let ds = natToString v
      in if length ds \<le> 21 then ds
         else (case rev (dropWhile (\<lambda>c. c = CHR ''0'') (rev ds)) of
                 [] \<Rightarrow> ds
               | d # rest \<Rightarrow>
                   d # (if rest = [] then [] else CHR ''.'' # rest)
                     @ ''e+'' @ natToString (length ds - 1)))"

definition numToString :: "jsnum \<Rightarrow> string" where
  "numToString x =
     (case x of
        NaN \<Rightarrow> ''NaN''
      | PosInfinity \<Rightarrow> ''Infinity''
      | NegInfinity \<Rightarrow> ''-Infinity''
      | Fin n \<Rightarrow>
          (if n < 0 then ''-'' else [])
          @ printDecimal (shortestDecimal (length (natToString (nat \<bar>n\<bar>))) (nat \<bar>n\<bar>)))"

text \<open>
  \<open>parseInt(str)\<close> with no radix: leading white space is skipped, then a sign, then
  a \<open>0x\<close> or \<open>0X\<close> prefix selects radix 16 (else 10); the longest run of digits of
  the radix is read, \<open>NaN\<close> when there is none, and the result is the double nearest
  to the integer read.
\<close>

definition isWhiteSpace :: "char \<Rightarrow> bool" where
  "isWhiteSpace c = (of_char c \<in> {9, 10, 11, 12, 13, 32, 160 :: nat})"

definition digitValue :: "char \<Rightarrow> nat" where
  "digitValue c =
     (let n = of_char c
      in if 48 \<le> n \<and> n \<le> 57 then n - 48
         else if 97 \<le> n \<and> n \<le> 122 then n - 87
         else if 65 \<le> n \<and> n \<le> 90 then n - 55
         else 36)"

definition parseInt :: "string \<Rightarrow> jsnum" where
  "parseInt str =
     (let s = dropWhile isWhiteSpace str;
          neg = (case s of c # cs \<Rightarrow> c = CHR ''-'' | [] \<Rightarrow> False);
          s1 = (case s of c # cs \<Rightarrow> if c = CHR ''-'' \<or> c = CHR ''+'' then cs else s | [] \<Rightarrow> []);
          hex = (case s1 of a # b # cs \<Rightarrow> a = CHR ''0'' \<and> (b = CHR ''x'' \<or> b = CHR ''X'')
                 | _ \<Rightarrow> False);
          radix = (if hex then 16 else 10);
          z = takeWhile (\<lambda>c. digitValue c < radix) (if hex then drop 2 s1 else s1)
      in if z = [] then NaN
         else roundDouble ((if neg then - 1 else 1)
                      * int (foldl (\<lambda>acc c. acc * radix + digitValue c) 0 z)))"

section \<open>Query keys and the query cache\<close>

text \<open>
  \<open>PaginationParams\<close>, as \<open>UsersPage\<close> builds it. The page size is handed on as it
  is and never computed with.
\<close>

record PaginationParams =
  page :: jsnum
  pageSize :: int
  query :: string
  status :: string

datatype keyPart = KStr string | KParams PaginationParams

type_synonym queryKey = "keyPart list"

definition userQueryKeys_all :: queryKey where
  "userQueryKeys_all = [KStr ''users'']"

definition userQueryKeys_list :: "PaginationParams \<Rightarrow> queryKey" where
  "userQueryKeys_list params = [KStr ''users'', KStr ''list'', KParams params]"

text \<open>
  The query client is the library's (@tanstack/react-query); the operations the hooks
  call are modelled by their documented behaviour. A query holds its data
  (\<open>undefined\<close> before the first successful fetch), whether a fetch is in flight,
  whether it is marked invalidated, and whether a mounted component observes it. The
  cache lists the queries in insertion order, one per key.
\<close>

record queryState =
  qdata :: jsval
  fetching :: bool
  isInvalidated :: bool
  active :: bool

type_synonym queryCache = "(queryKey \<times> queryState) list"

definition newQuery :: queryState where
  "newQuery = \<lparr>qdata = JUndefined, fetching = False, isInvalidated = False, active = False\<rparr>"

text \<open>A filter \<open>{ queryKey: f }\<close> matches every key that starts with \<open>f\<close>.\<close>

definition partialMatchKey :: "queryKey \<Rightarrow> queryKey \<Rightarrow> bool" where
  "partialMatchKey k filt = (take (length filt) k = filt)"

definition mapMatching ::
  "queryKey \<Rightarrow> (queryState \<Rightarrow> queryState) \<Rightarrow> queryCache \<Rightarrow> queryCache" where
  "mapMatching filt f c =
     map (\<lambda>(k, q). (k, if partialMatchKey k filt then f q else q)) c"

text \<open>\<open>cancelQueries\<close>: every matching fetch in flight is cancelled.\<close>

definition cancelQueries :: "queryKey \<Rightarrow> queryCache \<Rightarrow> queryCache" where
  "cancelQueries filt c = mapMatching filt (\<lambda>q. q\<lparr>fetching := False\<rparr>) c"

text \<open>\<open>getQueriesData\<close>: the pairs \<open>[queryKey, data]\<close> of the matching queries.\<close>

definition getQueriesData :: "queryKey \<Rightarrow> queryCache \<Rightarrow> (queryKey \<times> jsval) list" where
  "getQueriesData filt c =
     map (\<lambda>(k, q). (k, qdata q)) (filter (\<lambda>(k, q). partialMatchKey k filt) c)"

text \<open>
  Writing data into a query by hand stores it and clears the invalidated mark;
  \<open>setQueryData\<close> with \<open>undefined\<close> does nothing, and creates the query when the key
  has none.
\<close>

definition setData :: "jsval \<Rightarrow> queryState \<Rightarrow> queryState" where
  "setData v q = q\<lparr>qdata := v, isInvalidated := False\<rparr>"

definition setQueryData :: "queryKey \<Rightarrow> jsval \<Rightarrow> queryCache \<Rightarrow> queryCache" where
  "setQueryData k v c =
     (if v = JUndefined then c
      else AList.update k
             (setData v (case map_of c k of Some q \<Rightarrow> q | None \<Rightarrow> newQuery)) c)"

text \<open>
  \<open>setQueriesData\<close> with an updater function: each matching query in turn gets the
  updater's result for its data (none when the result is \<open>undefined\<close>). The second
  component tells whether the updater threw, which ends the loop and leaves the
  earlier writes in place.
\<close>

fun setQueriesData ::
  "queryKey \<Rightarrow> (jsval \<Rightarrow> jsval option) \<Rightarrow> queryCache \<Rightarrow> queryCache \<times> bool" where
  "setQueriesData filt updater [] = ([], False)"
| "setQueriesData filt updater ((k, q) # c) =
     (if partialMatchKey k filt then
        (case updater (qdata q) of
           None \<Rightarrow> ((k, q) # c, True)
         | Some v \<Rightarrow>
             (case setQueriesData filt updater c of
                (c', threw) \<Rightarrow> ((k, if v = JUndefined then q else setData v q) # c', threw)))
      else
        (case setQueriesData filt updater c of
           (c', threw) \<Rightarrow> ((k, q) # c', threw)))"

text \<open>
  \<open>invalidateQueries\<close>: every matching query is marked invalidated, and those a
  mounted component observes start to refetch.
\<close>

definition invalidateQueries :: "queryKey \<Rightarrow> queryCache \<Rightarrow> queryCache" where
  "invalidateQueries filt c =
     mapMatching filt (\<lambda>q. q\<lparr>isInvalidated := True, fetching := (fetching q \<or> active q)\<rparr>) c"

text \<open>
  A fetch of a key that is started (by a component that comes to show the key) and
  succeeds: the query of the key, created when there is none, holds the result, no
  fetch of it is in flight, and it is not marked invalidated.
\<close>

definition fetchSucceeded :: "queryKey \<Rightarrow> jsval \<Rightarrow> queryCache \<Rightarrow> queryCache" where
  "fetchSucceeded k v c =
     AList.update k
       ((case map_of c k of Some q \<Rightarrow> q | None \<Rightarrow> newQuery)
          \<lparr>qdata := v, fetching := False, isInvalidated := False\<rparr>) c"

text \<open>
  Modelled from the spec: the query client is created outside the given sources, so
  its staleness settings are missing. By section 4.4 a read returns the entry of its
  key when one exists and is not explicitly invalidated, and fetches otherwise; an
  entry exists once a fetch has stored data.
\<close>

definition readFetches :: "queryCache \<Rightarrow> queryKey \<Rightarrow> bool" where
  "readFetches c k =
     (case map_of c k of
        None \<Rightarrow> True
      | Some q \<Rightarrow> qdata q = JUndefined \<or> isInvalidated q)"

section \<open>The status mutation (useUpdateUserStatus, handleToggleStatus)\<close>

text \<open>
  \<open>onMutate\<close>. The context it returns is \<open>None\<close> when the updater threw: the promise
  rejects and the mutation has no context.
\<close>

definition onMutate ::
  "string \<Rightarrow> string \<Rightarrow> queryCache \<Rightarrow> queryCache \<times> (queryKey \<times> jsval) list option" where
  "onMutate userId newStatus c =
     (let c1 = cancelQueries userQueryKeys_all c;
          previousUsers = getQueriesData userQueryKeys_all c1
      in case setQueriesData userQueryKeys_all (optimisticUpdater userId newStatus) c1 of
           (c2, threw) \<Rightarrow> (c2, if threw then None else Some previousUsers))"

text \<open>\<open>onError\<close>: \<open>context?.previousUsers\<close> is written back pair by pair.\<close>

definition onError :: "(queryKey \<times> jsval) list option \<Rightarrow> queryCache \<Rightarrow> queryCache" where
  "onError ctx c =
     (case ctx of
        None \<Rightarrow> c
      | Some previousUsers \<Rightarrow> fold (\<lambda>(k, d). setQueryData k d) previousUsers c)"

definition onSettled :: "queryCache \<Rightarrow> queryCache" where
  "onSettled c = invalidateQueries userQueryKeys_all c"

text \<open>
  The state the page and the hook share: the query cache, the mutation the hook
  reports, the writes handed to \<open>updateUserStatus\<close>, and the snackbars shown, each a
  message and its variant. A mutation carries the context \<open>onMutate\<close> returned, from
  then on: neither hook nor page ever clears it, so a settled mutation still has
  it; a mutation whose \<open>onMutate\<close> rejected has none. The hook reports its latest
  mutation; while a write is pending no row of the page offers a toggle, so the
  page starts one mutation at a time.
\<close>

datatype mutationState =
    MIdle
  | MPending "(queryKey \<times> jsval) list"
  | MSuccess "(queryKey \<times> jsval) list"
  | MError "(queryKey \<times> jsval) list option"

record app =
  cache :: queryCache
  mutation :: mutationState
  dispatched :: "(string \<times> string) list"
  snackbars :: "(string \<times> string) list"

text \<open>
  A failed mutation: the hook's \<open>onError\<close> and \<open>onSettled\<close>, then the \<open>onError\<close>
  that \<open>handleToggleStatus\<close> passes to \<open>mutate\<close>.
\<close>

definition failMutation :: "(queryKey \<times> jsval) list option \<Rightarrow> app \<Rightarrow> app" where
  "failMutation ctx st =
     st\<lparr>cache := onSettled (onError ctx (cache st)),
        mutation := MError ctx,
        snackbars := snackbars st @ [(''Failed to update user status'', ''error'')]\<rparr>"

text \<open>
  \<open>handleToggleStatus\<close> up to the point where the write is in flight: \<open>onMutate\<close>,
  then the call of \<open>updateUserStatus\<close>. When \<open>onMutate\<close> rejects the write is not
  sent and the mutation fails at once.
\<close>

definition handleToggleStatus :: "string \<Rightarrow> string \<Rightarrow> app \<Rightarrow> app" where
  "handleToggleStatus userId newStatus st =
     (case onMutate userId newStatus (cache st) of
        (c, Some previousUsers) \<Rightarrow>
          st\<lparr>cache := c,
             mutation := MPending previousUsers,
             dispatched := dispatched st @ [(userId, newStatus)]\<rparr>
      | (c, None) \<Rightarrow> failMutation None (st\<lparr>cache := c\<rparr>))"

text \<open>The write settles: acknowledged with the response's message, or rejected.\<close>

datatype writeResult = Acknowledged string | Rejected

definition settle :: "writeResult \<Rightarrow> app \<Rightarrow> app" where
  "settle r st =
     (case mutation st of
        MPending previousUsers \<Rightarrow>
          (case r of
             Acknowledged message \<Rightarrow>
               st\<lparr>cache := onSettled (cache st),
                  mutation := MSuccess previousUsers,
                  snackbars := snackbars st @ [(message, ''success'')]\<rparr>
           | Rejected \<Rightarrow> failMutation (Some previousUsers) st)
      | _ \<Rightarrow> st)"

section \<open>The actions column (UsersPage.tsx, UserActions.tsx)\<close>

datatype actionsNode = Spinner | ToggleButton bool

text \<open>
  \<open>UserActions\<close>: the progress indicator while \<open>isUpdating\<close>, else the toggle button,
  which reads \<open>user.status\<close>.
\<close>

definition UserActions :: "jsval \<Rightarrow> bool \<Rightarrow> actionsNode option" where
  "UserActions user updating =
     (if updating then Some Spinner
      else do { s \<leftarrow> getprop user ''status''; Some (ToggleButton (s = JStr ''active'')) })"

text \<open>\<open>isPending\<close> of the mutation hook, which the page names \<open>isUpdating\<close>.\<close>

definition isUpdating :: "app \<Rightarrow> bool" where
  "isUpdating st = (case mutation st of MPending ctx \<Rightarrow> True | _ \<Rightarrow> False)"

text \<open>\<open>data\<close> of \<open>useUsers(params)\<close>: the data of the query under the key of the params.\<close>

definition useUsers :: "queryCache \<Rightarrow> PaginationParams \<Rightarrow> jsval" where
  "useUsers c params =
     (case map_of c (userQueryKeys_list params) of Some q \<Rightarrow> qdata q | None \<Rightarrow> JUndefined)"

text \<open>
  \<open>usersWithActions\<close>: each user of \<open>data?.data?.users || []\<close> with the rendering of
  its actions cell.
\<close>

definition usersWithActions :: "jsval \<Rightarrow> bool \<Rightarrow> (jsval \<times> actionsNode) list option" where
  "usersWithActions d updating =
     (let users = optChain (optChain d ''data'') ''users''
      in arrayMap (\<lambda>user. map_option (\<lambda>a. (user, a)) (UserActions user updating))
           (if truthy users then users else JArr []))"

definition actionsColumn :: "app \<Rightarrow> PaginationParams \<Rightarrow> (jsval \<times> actionsNode) list option" where
  "actionsColumn st params = usersWithActions (useUsers (cache st) params) (isUpdating st)"

section \<open>Cached values the updater accepts\<close>

text \<open>An array none of whose elements is \<open>null\<close> or \<open>undefined\<close>.\<close>

fun nonNullArray :: "jsval \<Rightarrow> bool" where
  "nonNullArray (JArr xs) = list_all (\<lambda>u. \<not> nullish u) xs"
| "nonNullArray v = False"

text \<open>
  The cached values on which the updater does not throw: those without a truthy
  \<open>old?.data?.users\<close>, and those whose \<open>users\<close> is an array of values that have
  properties. Every response of \<open>fetchUsers\<close> (\<open>users: User[]\<close>) is one.
\<close>

definition updatable :: "jsval \<Rightarrow> bool" where
  "updatable old =
     (let users = optChain (optChain old ''data'') ''users''
      in \<not> truthy users \<or> nonNullArray users)"

text \<open>Every query under \<open>['users']\<close> holds such a value.\<close>

definition familyUpdatable :: "queryCache \<Rightarrow> bool" where
  "familyUpdatable c =
     list_all (\<lambda>(k, q). partialMatchKey k userQueryKeys_all \<longrightarrow> updatable (qdata q)) c"

section \<open>View state of the page (UsersPage.tsx)\<close>

text \<open>
  \<open>MRT_PaginationState\<close>, its \<open>pageSize\<close> written \<open>tablePageSize\<close> (the name
  \<open>pageSize\<close> is the field of \<open>PaginationParams\<close>). A sorting entry \<open>{id, desc}\<close> is a
  pair. The state holds the values of the \<open>useState\<close> hooks of the page and the
  value \<open>useDebounce\<close> returns.
\<close>

record MRT_PaginationState =
  pageIndex :: jsnum
  tablePageSize :: int

record viewState =
  searchQuery :: string
  statusFilter :: string
  pagination :: MRT_PaginationState
  columnVisibility :: jsval
  sorting :: "(string \<times> bool) list"
  debouncedSearchQuery :: string

text \<open>\<open>x || d\<close> for \<open>x\<close> a string or \<open>null\<close>.\<close>

definition orElse :: "string option \<Rightarrow> string \<Rightarrow> string" where
  "orElse x d = (case x of Some s \<Rightarrow> if s = [] then d else s | None \<Rightarrow> d)"

text \<open>
  \<open>useLocalStorage\<close>, its initial value: \<open>getItem\<close> may throw (\<open>None\<close>) or return
  \<open>null\<close> (\<open>Some None\<close>) or a string; \<open>JSON.parse\<close> is a parameter and throws on
  \<open>None\<close>. The second component is what \<open>console.warn\<close> logged, the key of the
  failed read.
\<close>

datatype consoleEntry = ReadWarning string

definition useLocalStorage ::
  "(string \<Rightarrow> string option option) \<Rightarrow> (string \<Rightarrow> 'a option) \<Rightarrow> string \<Rightarrow> 'a
     \<Rightarrow> 'a \<times> consoleEntry list" where
  "useLocalStorage getItem jsonParse key defaultValue =
     (case getItem key of
        None \<Rightarrow> (defaultValue, [ReadWarning key])
      | Some None \<Rightarrow> (defaultValue, [])
      | Some (Some item) \<Rightarrow>
          if item = [] then (defaultValue, [])
          else (case jsonParse item of
                  None \<Rightarrow> (defaultValue, [ReadWarning key])
                | Some v \<Rightarrow> (v, [])))"

text \<open>
  The table shows a column unless the visibility state maps it to a falsy value: a
  column the state does not mention is visible.
\<close>

definition columnVisible :: "jsval \<Rightarrow> string \<Rightarrow> bool" where
  "columnVisible vis col = (let v = optChain vis col in if nullish v then True else truthy v)"

text \<open>
  The initial values of the \<open>useState\<close> hooks, read from the URL's search
  parameters (\<open>searchParams.get\<close> is the first value of the key, or \<open>null\<close>).

  Modelled from the spec: \<open>useDebounce\<close> is imported from \<open>@/hooks\<close> and its source is
  missing; by section 4.2 it forwards the raw value once the quiet interval has
  passed, and the view is initialised from the external representation, so the
  debounced value starts as the search query read from the URL.
\<close>

definition initialState :: "(string \<times> string) list \<Rightarrow> jsval \<Rightarrow> viewState" where
  "initialState searchParams storedVisibility =
     \<lparr>searchQuery = orElse (map_of searchParams ''search'') [],
      statusFilter = orElse (map_of searchParams ''status'') ''all'',
      pagination =
        \<lparr>pageIndex =
           (case map_of searchParams ''page'' of
              Some p \<Rightarrow> if p \<noteq> [] then numAdd (parseInt p) (- 1) else Fin 0
            | None \<Rightarrow> Fin 0),
         tablePageSize = 10\<rparr>,
      columnVisibility = storedVisibility,
      sorting =
        (case map_of searchParams ''sort'' of
           Some sortParam \<Rightarrow>
             if sortParam \<noteq> [] then [(sortParam, map_of searchParams ''order'' = Some ''desc'')]
             else []
         | None \<Rightarrow> []),
      debouncedSearchQuery = orElse (map_of searchParams ''search'') []\<rparr>"

text \<open>The first render: the stored column visibility, then the state.\<close>

definition mount ::
  "(string \<times> string) list \<Rightarrow> (string \<Rightarrow> string option option) \<Rightarrow> (string \<Rightarrow> jsval option)
     \<Rightarrow> viewState \<times> consoleEntry list" where
  "mount searchParams getItem jsonParse =
     (case useLocalStorage getItem jsonParse ''users-table-column-visibility'' (JObj []) of
        (vis, logged) \<Rightarrow> (initialState searchParams vis, logged))"

text \<open>The argument of \<open>useUsers\<close>.\<close>

definition queryParams :: "viewState \<Rightarrow> PaginationParams" where
  "queryParams s =
     \<lparr>page = numAdd (pageIndex (pagination s)) 1,
      pageSize = tablePageSize (pagination s),
      query = debouncedSearchQuery s,
      status = statusFilter s\<rparr>"

text \<open>
  The effect that writes the URL: the object \<open>params\<close> handed to
  \<open>setSearchParams\<close>, its entries in insertion order.
\<close>

definition urlParams :: "viewState \<Rightarrow> (string \<times> string) list" where
  "urlParams s =
     [(''page'', numToString (numAdd (pageIndex (pagination s)) 1))]
     @ (if statusFilter s \<noteq> ''all'' then [(''status'', statusFilter s)] else [])
     @ (if debouncedSearchQuery s \<noteq> [] then [(''search'', debouncedSearchQuery s)] else [])
     @ (case sorting s of
          [] \<Rightarrow> []
        | (sid, desc) # rest \<Rightarrow> [(''sort'', sid), (''order'', if desc then ''desc'' else ''asc'')])"

text \<open>The handlers of the page, and the setters handed to the table.\<close>

definition handleSearchChange :: "string \<Rightarrow> viewState \<Rightarrow> viewState" where
  "handleSearchChange v s =
     s\<lparr>searchQuery := v, pagination := (pagination s)\<lparr>pageIndex := Fin 0\<rparr>\<rparr>"

definition handleStatusFilterChange :: "string \<Rightarrow> viewState \<Rightarrow> viewState" where
  "handleStatusFilterChange v s =
     s\<lparr>statusFilter := v, pagination := (pagination s)\<lparr>pageIndex := Fin 0\<rparr>\<rparr>"

definition handlePaginationChange :: "MRT_PaginationState \<Rightarrow> viewState \<Rightarrow> viewState" where
  "handlePaginationChange newPagination s = s\<lparr>pagination := newPagination\<rparr>"

definition setSorting :: "(string \<times> bool) list \<Rightarrow> viewState \<Rightarrow> viewState" where
  "setSorting newSorting s = s\<lparr>sorting := newSorting\<rparr>"

definition setColumnVisibility :: "jsval \<Rightarrow> viewState \<Rightarrow> viewState" where
  "setColumnVisibility v s = s\<lparr>columnVisibility := v\<rparr>"

text \<open>
  Modelled from the spec: \<open>useDebounce\<close> (source missing), section 4.2: when the quiet
  interval of 300ms has passed, the value present is forwarded.
\<close>

definition debounceSettle :: "viewState \<Rightarrow> viewState" where
  "debounceSettle s = s\<lparr>debouncedSearchQuery := searchQuery s\<rparr>"

text \<open>
  The states the page can be in: the initial state of any URL, then any handler. The
  status select offers \<open>all\<close>, \<open>active\<close> and \<open>inactive\<close>; the table hands over a
  page index that is a number, and sorts by the ids of its columns, which are not
  empty.
\<close>

inductive reachable :: "viewState \<Rightarrow> bool" where
  mounted: "reachable (initialState searchParams vis)"
| typed: "reachable s \<Longrightarrow> reachable (handleSearchChange v s)"
| settled: "reachable s \<Longrightarrow> reachable (debounceSettle s)"
| filtered: "reachable s \<Longrightarrow> v = ''all'' \<or> v = ''active'' \<or> v = ''inactive''
             \<Longrightarrow> reachable (handleStatusFilterChange v s)"
| paged: "reachable s \<Longrightarrow> isDouble (pageIndex p) \<Longrightarrow> reachable (handlePaginationChange p s)"
| sorted: "reachable s \<Longrightarrow> list_all (\<lambda>x. fst x \<noteq> []) srt \<Longrightarrow> reachable (setSorting srt s)"
| toggled: "reachable s \<Longrightarrow> reachable (setColumnVisibility v s)"

text \<open>What every such state satisfies and the URL encoding relies on.\<close>

definition encodable :: "viewState \<Rightarrow> bool" where
  "encodable s = (statusFilter s \<noteq> [] \<and> list_all (\<lambda>x. fst x \<noteq> []) (sorting s))"

text \<open>
  The page index is \<open>NaN\<close>, or it and the page number after it are safe integers:
  of absolute value at most \<open>2^53 - 1\<close>, where doubles are the integers.
\<close>

definition safePage :: "viewState \<Rightarrow> bool" where
  "safePage s =
     (case pageIndex (pagination s) of
        NaN \<Rightarrow> True
      | Fin n \<Rightarrow> - (2 ^ 53) < n \<and> n + 1 < 2 ^ 53
      | _ \<Rightarrow> False)"

text \<open>Three concrete view states.\<close>

definition demoView :: viewState where
  "demoView = initialState [(''page'', ''3''), (''status'', ''active''), (''sort'', ''name'')] (JObj [])"

definition demoRace :: viewState where
  "demoRace =
     handlePaginationChange \<lparr>pageIndex = Fin 1, tablePageSize = 10\<rparr>
       (handleSearchChange ''a'' (initialState [] (JObj [])))"

definition demoHuge :: viewState where
  "demoHuge = initialState [(''page'', ''1000000000000000000000'')] (JObj [])"

section \<open>What the optimistic write is to achieve\<close>

text \<open>
  The record \<open>u'\<close> is \<open>u\<close> rewritten for the mutation of \<open>recordId\<close>: when \<open>u\<close> is
  that record, \<open>u'\<close> carries the new status and agrees with \<open>u\<close> on every other
  field; any other record is left as it is.
\<close>

definition recordRewritten :: "string \<Rightarrow> string \<Rightarrow> jsval \<Rightarrow> jsval \<Rightarrow> bool" where
  "recordRewritten recordId newStatusValue u u' =
     (if propOf u ''userId'' = JStr recordId
      then propOf u' ''status'' = JStr newStatusValue
           \<and> (\<forall>f. f \<noteq> ''status'' \<longrightarrow> propOf u' f = propOf u f)
      else u' = u)"

text \<open>
  The cached value \<open>new\<close> is \<open>old\<close> rewritten: where \<open>old\<close> has a users list, \<open>new\<close>
  has the list of the rewritten records, in the same order, and agrees with \<open>old\<close> on
  every other field of the response and of its \<open>data\<close>; a value without a users list
  is left as it is.
\<close>

definition valueRewritten :: "string \<Rightarrow> string \<Rightarrow> jsval \<Rightarrow> jsval \<Rightarrow> bool" where
  "valueRewritten recordId newStatusValue old new =
     (case optChain (optChain old ''data'') ''users'' of
        JArr us \<Rightarrow>
          (\<exists>us'. propOf (propOf new ''data'') ''users'' = JArr us'
                  \<and> list_all2 (recordRewritten recordId newStatusValue) us us')
          \<and> (\<forall>f. f \<noteq> ''data'' \<longrightarrow> propOf new f = propOf old f)
          \<and> (\<forall>f. f \<noteq> ''users'' \<longrightarrow>
                 propOf (propOf new ''data'') f = propOf (propOf old ''data'') f)
      | _ \<Rightarrow> new = old)"

text \<open>The callback of \<open>users.map\<close> on a value that has properties.\<close>

definition rewriteUser :: "string \<Rightarrow> string \<Rightarrow> jsval \<Rightarrow> jsval" where
  "rewriteUser uid s u = (if propOf u ''userId'' = JStr uid then spreadWith u ''status'' (JStr s) else u)"

text \<open>What \<open>setQueriesData\<close> does to one matching query when the updater returns.\<close>

definition writeBack :: "(jsval \<Rightarrow> jsval option) \<Rightarrow> queryState \<Rightarrow> queryState" where
  "writeBack updater q =
     (case updater (qdata q) of
        Some v \<Rightarrow> if v = JUndefined then q else setData v q
      | None \<Rightarrow> q)"

section \<open>A concrete page of two users\<close>

definition demoUser1 :: jsval where
  "demoUser1 = JObj [(''userId'', JStr ''u1''), (''name'', JStr ''Ann''), (''status'', JStr ''active'')]"

definition demoUser2 :: jsval where
  "demoUser2 = JObj [(''userId'', JStr ''u2''), (''name'', JStr ''Bob''), (''status'', JStr ''active'')]"

definition demoResponse :: jsval where
  "demoResponse =
     JObj [(''data'', JObj [(''users'', JArr [demoUser1, demoUser2]), (''totalCount'', JNum 2)])]"

definition demoParams :: PaginationParams where
  "demoParams = \<lparr>page = Fin 1, pageSize = 10, query = [], status = ''all''\<rparr>"

definition demoApp :: app where
  "demoApp =
     \<lparr>cache = [(userQueryKeys_list demoParams,
                 \<lparr>qdata = demoResponse, fetching = True, isInvalidated = False, active = True\<rparr>)],
      mutation = MIdle, dispatched = [], snackbars = []\<rparr>"

text \<open>The first user after the optimistic write, and the state with the write in flight.\<close>

definition demoUser1' :: jsval where
  "demoUser1' = JObj [(''userId'', JStr ''u1''), (''name'', JStr ''Ann''), (''status'', JStr ''inactive'')]"

definition demoPending :: app where
  "demoPending =
     \<lparr>cache = [(userQueryKeys_list demoParams,
                 \<lparr>qdata = JObj [(''data'', JObj [(''users'', JArr [demoUser1', demoUser2]),
                                                  (''totalCount'', JNum 2)])],
                  fetching = False, isInvalidated = False, active = True\<rparr>)],
      mutation = MPending [(userQueryKeys_list demoParams, demoResponse)],
      dispatched = [(''u1'', ''inactive'')], snackbars = []\<rparr>"

text \<open>
  A cache of two pages, the second still without data, and the response that a
  later fetch of the second page brings.
\<close>

definition demoParams2 :: PaginationParams where
  "demoParams2 = \<lparr>page = Fin 2, pageSize = 10, query = [], status = ''all''\<rparr>"

definition demoResponse2 :: jsval where
  "demoResponse2 = JObj [(''data'', JObj [(''users'', JArr []), (''totalCount'', JNum 2)])]"

definition demoApp2 :: app where
  "demoApp2 =
     \<lparr>cache = [(userQueryKeys_list demoParams,
                 \<lparr>qdata = demoResponse, fetching = False, isInvalidated = False, active = True\<rparr>),
                (userQueryKeys_list demoParams2,
                 \<lparr>qdata = JUndefined, fetching = True, isInvalidated = False, active = False\<rparr>)],
      mutation = MIdle, dispatched = [], snackbars = []\<rparr>"

text \<open>
  The toggle of \<open>u1\<close> has cancelled the fetch of the second page and taken the
  snapshot; while the write is in flight the second page is shown, and its new fetch
  brings its data.
\<close>

definition demoLanded :: app where
  "demoLanded =
     (handleToggleStatus ''u1'' ''inactive'' demoApp2)
       \<lparr>cache := fetchSucceeded (userQueryKeys_list demoParams2) demoResponse2
                   (cache (handleToggleStatus ''u1'' ''inactive'' demoApp2))\<rparr>"

section \<open>Properties of the column resolver\<close>

lemma groupChip_groupVal: "groupChip (groupVal g) = Some (chipOf g)"
  by (simp add: groupChip_def groupVal_def chipOf_def getprop_def)

lemma mapM_groupChip: "mapM groupChip (map groupVal gs) = Some (map chipOf gs)"
  by (induction gs) (simp_all add: groupChip_groupVal)

lemma arrayMap_result: "arrayMap f v = Some ys \<Longrightarrow> \<exists>xs. v = JArr xs"
  by (cases v) simp_all

text \<open>
  C7. A chiplist cell holding a non-empty sequence of groups renders one chip per
  group, keyed by its groupId and labelled with its groupName, in the order of the
  sequence; an empty, \<open>null\<close> or \<open>undefined\<close> value renders the "No groups"
  indicator; and whatever the value, a chiplist cell is never the value itself nor
  its string conversion.
\<close>

theorem chiplist_rendering:
  assumes "colType columnMeta = ''chiplist''"
  shows "(gs \<noteq> [] \<longrightarrow>
            renderCellByType formatDate (JArr (map groupVal gs)) columnMeta
              = Some (ChipBox (map chipOf gs)))
       \<and> renderCellByType formatDate (JArr []) columnMeta = Some NoGroups
       \<and> renderCellByType formatDate JUndefined columnMeta = Some NoGroups
       \<and> renderCellByType formatDate JNull columnMeta = Some NoGroups
       \<and> renderCellByType formatDate v columnMeta \<noteq> Some (Stringified w)
       \<and> renderCellByType formatDate v columnMeta \<noteq> Some (Raw w)"
  using assms
  by (auto simp add: renderCellByType_def mapM_groupChip)

theorem chiplist_rendering_witness:
  "renderCellByType (\<lambda>v f. ''-'')
     (JArr [groupVal (''g1'', ''Engineering''), groupVal (''g2'', ''Sales'')])
     \<lparr>colKey = ''groups'', colHeader = ''Groups'', colType = ''chiplist'',
      colWidth = None, colFormat = None\<rparr>
   = Some (ChipBox [(JStr ''g1'', JStr ''Engineering''), (JStr ''g2'', JStr ''Sales'')])"
  using chiplist_rendering
    [of "\<lparr>colKey = ''groups'', colHeader = ''Groups'', colType = ''chiplist'',
          colWidth = None, colFormat = None\<rparr>"
        "[(''g1'', ''Engineering''), (''g2'', ''Sales'')]" "\<lambda>v f. ''-''"]
  by (simp add: chipOf_def)

section \<open>Properties of the optimistic updater\<close>

lemma truthy_users_obj:
  "truthy (optChain (optChain old ''data'') ''users'') \<Longrightarrow>
     \<exists>ps ds. old = JObj ps \<and> propOf old ''data'' = JObj ds"
  apply (cases old; simp add: optChain_def)
  apply (rename_tac ps)
  apply (case_tac "propOf (JObj ps) ''data''"; simp)
  done

lemma propOf_spreadWith:
  "propOf (spreadWith (JObj ps) k x) f = (if f = k then x else propOf (JObj ps) f)"
  by (simp add: spreadWith_def update_conv')

lemma updater_identity:
  "\<not> truthy (optChain (optChain old ''data'') ''users'') \<Longrightarrow> optimisticUpdater uid s old = Some old"
  by (simp add: optimisticUpdater_def)

lemma mapM_updateUser:
  "list_all (\<lambda>u. \<not> nullish u) us \<Longrightarrow> mapM (updateUser uid s) us = Some (map (rewriteUser uid s) us)"
  by (induction us) (simp_all add: updateUser_def getprop_def rewriteUser_def)

lemma userId_obj: "propOf u ''userId'' = JStr uid \<Longrightarrow> \<exists>ps. u = JObj ps"
  by (cases u) simp_all

lemma recordRewritten_rewriteUser: "recordRewritten uid s u (rewriteUser uid s u)"
proof (cases "propOf u ''userId'' = JStr uid")
  case True
  then obtain ps where "u = JObj ps" using userId_obj by blast
  with True show ?thesis
    by (simp add: recordRewritten_def rewriteUser_def propOf_spreadWith)
next
  case False
  then show ?thesis by (simp add: recordRewritten_def rewriteUser_def)
qed

lemma list_all2_rewriteUser: "list_all2 (recordRewritten uid s) us (map (rewriteUser uid s) us)"
  by (induction us) (simp_all add: recordRewritten_rewriteUser)

lemma updater_rewrites:
  assumes "updatable old"
  shows "\<exists>new. optimisticUpdater uid s old = Some new \<and> valueRewritten uid s old new"
proof (cases "truthy (optChain (optChain old ''data'') ''users'')")
  case False
  then have "optimisticUpdater uid s old = Some old" by (rule updater_identity)
  moreover from False have "valueRewritten uid s old old"
    by (auto simp add: valueRewritten_def split: jsval.splits)
  ultimately show ?thesis by blast
next
  case True
  then obtain ps ds where old: "old = JObj ps" and ds: "propOf old ''data'' = JObj ds"
    using truthy_users_obj by blast
  from True old ds have oc: "optChain (optChain old ''data'') ''users'' = propOf (JObj ds) ''users''"
    by (simp add: optChain_def)
  from assms True have "nonNullArray (optChain (optChain old ''data'') ''users'')"
    by (simp add: updatable_def Let_def)
  then obtain us where us: "propOf (JObj ds) ''users'' = JArr us"
    and nn: "list_all (\<lambda>u. \<not> nullish u) us"
    unfolding oc by (cases "propOf (JObj ds) ''users''") simp_all
  let ?new = "spreadWith (JObj ps) ''data'' (spreadWith (JObj ds) ''users'' (JArr (map (rewriteUser uid s) us)))"
  have "optimisticUpdater uid s old = Some ?new"
    using True old ds us mapM_updateUser[OF nn, of uid s]
    by (simp add: optimisticUpdater_def)
  moreover have "valueRewritten uid s old ?new"
    unfolding valueRewritten_def oc us
    using old ds us
    by (simp add: propOf_spreadWith list_all2_rewriteUser del: propOf.simps)
  ultimately show ?thesis by blast
qed

text \<open>
  C10. On a cached value that is \<open>null\<close> or \<open>undefined\<close>, or whose \<open>data\<close> or
  \<open>data.users\<close> is, the updater returns the value itself and does not throw,
  whatever the user id and the status.
\<close>

theorem updater_identity_without_users:
  "nullish old \<or> nullish (optChain old ''data'')
     \<or> nullish (optChain (optChain old ''data'') ''users'')
   \<longrightarrow> optimisticUpdater userId newStatus old = Some old"
proof
  assume "nullish old \<or> nullish (optChain old ''data'')
     \<or> nullish (optChain (optChain old ''data'') ''users'')"
  then have "nullish (optChain (optChain old ''data'') ''users'')"
    by (auto simp add: optChain_def)
  then have "\<not> truthy (optChain (optChain old ''data'') ''users'')"
    by (cases "optChain (optChain old ''data'') ''users''") simp_all
  then show "optimisticUpdater userId newStatus old = Some old"
    by (rule updater_identity)
qed

theorem updater_identity_without_users_witness:
  "optimisticUpdater ''u1'' ''inactive'' JUndefined = Some JUndefined
   \<and> optimisticUpdater ''u1'' ''inactive'' JNull = Some JNull
   \<and> optimisticUpdater ''u1'' ''inactive'' (JObj [(''data'', JObj [(''totalCount'', JNum 0)])])
       = Some (JObj [(''data'', JObj [(''totalCount'', JNum 0)])])"
  using updater_identity_without_users[of JUndefined "''u1''" "''inactive''"]
    updater_identity_without_users[of JNull "''u1''" "''inactive''"]
    updater_identity_without_users[of "JObj [(''data'', JObj [(''totalCount'', JNum 0)])]"
      "''u1''" "''inactive''"]
  by (simp add: optChain_def)

section \<open>Properties of the mutation\<close>

lemma setQueriesData_no_throw:
  "list_all (\<lambda>(k, q). partialMatchKey k filt \<longrightarrow> updater (qdata q) \<noteq> None) c \<Longrightarrow>
   setQueriesData filt updater c = (mapMatching filt (writeBack updater) c, False)"
  by (induction c) (auto simp add: mapMatching_def writeBack_def)

lemma updater_undefined:
  "optimisticUpdater uid s old = Some JUndefined \<Longrightarrow> old = JUndefined"
  by (auto simp add: optimisticUpdater_def spreadWith_def split: if_splits Option.bind_splits)

lemma qdata_writeBack:
  "optimisticUpdater uid s (qdata q) = Some new \<Longrightarrow>
   qdata (writeBack (optimisticUpdater uid s) q) = new"
  by (auto simp add: writeBack_def setData_def dest: updater_undefined)

lemma list_all_mapMatching:
  "list_all (\<lambda>(k, q). P k q) (mapMatching filt f c)
     = list_all (\<lambda>(k, q). if partialMatchKey k filt then P k (f q) else P k q) c"
  by (induction c) (auto simp add: mapMatching_def)

lemma familyUpdatable_cancel:
  assumes "familyUpdatable c"
  shows "list_all (\<lambda>(k, q). partialMatchKey k userQueryKeys_all \<longrightarrow>
               optimisticUpdater uid s (qdata q) \<noteq> None) (cancelQueries userQueryKeys_all c)"
proof -
  have "list_all (\<lambda>(k, q). partialMatchKey k userQueryKeys_all \<longrightarrow>
               optimisticUpdater uid s (qdata q) \<noteq> None) c"
    using assms unfolding familyUpdatable_def
    by (rule list.pred_mono_strong) (auto dest: updater_rewrites[of _ uid s])
  then show ?thesis
    unfolding cancelQueries_def list_all_mapMatching
    by (rule list.pred_mono_strong) auto
qed

lemma onMutate_ok:
  assumes "familyUpdatable c"
  shows "onMutate uid s c =
           (mapMatching userQueryKeys_all (writeBack (optimisticUpdater uid s))
              (cancelQueries userQueryKeys_all c),
            Some (getQueriesData userQueryKeys_all (cancelQueries userQueryKeys_all c)))"
  using setQueriesData_no_throw[OF familyUpdatable_cancel[OF assms, of uid s]]
  by (simp add: onMutate_def Let_def)

lemma getQueriesData_cancel:
  "getQueriesData filt (cancelQueries filt c) = getQueriesData filt c"
  unfolding getQueriesData_def cancelQueries_def mapMatching_def
  by (induction c) auto

lemma handleToggleStatus_ok:
  assumes "familyUpdatable (cache st)"
  shows "handleToggleStatus uid s st =
           st\<lparr>cache := mapMatching userQueryKeys_all (writeBack (optimisticUpdater uid s))
                         (cancelQueries userQueryKeys_all (cache st)),
              mutation := MPending (getQueriesData userQueryKeys_all (cache st)),
              dispatched := dispatched st @ [(uid, s)]\<rparr>"
  by (simp add: handleToggleStatus_def onMutate_ok[OF assms] getQueriesData_cancel)

lemma fetching_writeBack: "fetching (writeBack updater q) = fetching q"
  by (simp add: writeBack_def setData_def split: option.splits)

lemma not_fetching_after:
  "list_all (\<lambda>(k, q). partialMatchKey k filt \<longrightarrow> \<not> fetching q)
     (mapMatching filt (writeBack updater) (cancelQueries filt c))"
  unfolding cancelQueries_def list_all_mapMatching
  by (induction c) (auto simp add: fetching_writeBack)

lemma entries_rewritten:
  "familyUpdatable c \<Longrightarrow>
   list_all2 (\<lambda>(k, q) (k', q'). k' = k \<and>
       (if partialMatchKey k userQueryKeys_all
        then valueRewritten uid s (qdata q) (qdata q') else q' = q))
     c (mapMatching userQueryKeys_all (writeBack (optimisticUpdater uid s))
          (cancelQueries userQueryKeys_all c))"
proof (induction c)
  case Nil
  then show ?case by (simp add: mapMatching_def cancelQueries_def)
next
  case (Cons e c)
  obtain k q where e: "e = (k, q)" by (cases e)
  from Cons.prems have tl: "familyUpdatable c"
    by (simp add: familyUpdatable_def)
  have hd: "partialMatchKey k userQueryKeys_all \<Longrightarrow>
      valueRewritten uid s (qdata q)
        (qdata (writeBack (optimisticUpdater uid s) (q\<lparr>fetching := False\<rparr>)))"
  proof -
    assume m: "partialMatchKey k userQueryKeys_all"
    with Cons.prems e have "updatable (qdata q)" by (simp add: familyUpdatable_def)
    then obtain new where n: "optimisticUpdater uid s (qdata q) = Some new"
      and v: "valueRewritten uid s (qdata q) new"
      using updater_rewrites by blast
    from n have "qdata (writeBack (optimisticUpdater uid s) (q\<lparr>fetching := False\<rparr>)) = new"
      by (intro qdata_writeBack) simp
    with v show ?thesis by simp
  qed
  from Cons.IH[OF tl] hd show ?case
    by (simp add: e mapMatching_def cancelQueries_def)
qed

text \<open>
  C1. When every cached value of the family is one the updater accepts, toggling the
  status of \<open>recordId\<close> leaves the page, before the write settles, in a state where
  (1) no query of the family is fetching, (2) the pending mutation holds the data
  every query of the family had, (3) the cache has the same keys in the same order,
  each query of the family holding its old value rewritten for \<open>recordId\<close> and every
  other query untouched, and (4) the write has been handed to \<open>updateUserStatus\<close>.
\<close>

theorem mutation_start:
  assumes "familyUpdatable (cache st)"
  shows "list_all (\<lambda>(k, q). partialMatchKey k userQueryKeys_all \<longrightarrow> \<not> fetching q)
           (cache (handleToggleStatus recordId newStatusValue st))
       \<and> mutation (handleToggleStatus recordId newStatusValue st)
           = MPending (map (\<lambda>(k, q). (k, qdata q))
                        (filter (\<lambda>(k, q). partialMatchKey k userQueryKeys_all) (cache st)))
       \<and> list_all2 (\<lambda>(k, q) (k', q'). k' = k \<and>
             (if partialMatchKey k userQueryKeys_all
              then valueRewritten recordId newStatusValue (qdata q) (qdata q') else q' = q))
           (cache st) (cache (handleToggleStatus recordId newStatusValue st))
       \<and> dispatched (handleToggleStatus recordId newStatusValue st)
           = dispatched st @ [(recordId, newStatusValue)]"
  unfolding handleToggleStatus_ok[OF assms]
  using not_fetching_after entries_rewritten[OF assms]
  by (simp add: getQueriesData_def)

lemma map_of_mapMatching:
  "map_of (mapMatching filt f c) k
     = map_option (\<lambda>q. if partialMatchKey k filt then f q else q) (map_of c k)"
  by (induction c) (auto simp add: mapMatching_def)

lemma map_of_setQueryData:
  "map_of (setQueryData k v c) k' =
     (if v \<noteq> JUndefined \<and> k' = k
      then Some (setData v (case map_of c k of Some q \<Rightarrow> q | None \<Rightarrow> newQuery))
      else map_of c k')"
  by (simp add: setQueryData_def update_conv')

lemma map_of_restore:
  "distinct (map fst prev) \<Longrightarrow>
   map_of (fold (\<lambda>(k, d). setQueryData k d) prev c) k =
     (case map_of prev k of
        None \<Rightarrow> map_of c k
      | Some d \<Rightarrow>
          if d = JUndefined then map_of c k
          else Some (setData d (case map_of c k of Some q \<Rightarrow> q | None \<Rightarrow> newQuery)))"
proof (induction prev arbitrary: c)
  case Nil
  then show ?case by simp
next
  case (Cons e prev)
  obtain k' d' where e: "e = (k', d')" by (cases e)
  from Cons.prems e have notin: "map_of prev k' = None" and dist: "distinct (map fst prev)"
    by (simp_all add: map_of_eq_None_iff)
  show ?case
    using notin
    by (simp add: e Cons.IH[OF dist] map_of_setQueryData split: option.splits)
qed

lemma map_of_getQueriesData:
  "map_of (getQueriesData filt c) k =
     (if partialMatchKey k filt then map_option qdata (map_of c k) else None)"
  by (induction c) (auto simp add: getQueriesData_def)

lemma distinct_getQueriesData:
  "distinct (map fst c) \<Longrightarrow> distinct (map fst (getQueriesData filt c))"
proof -
  have "map fst (getQueriesData filt c) = filter (\<lambda>k. partialMatchKey k filt) (map fst c)"
    by (induction c) (auto simp add: getQueriesData_def)
  then show "distinct (map fst c) \<Longrightarrow> ?thesis" by simp
qed

lemma qdata_invalidate:
  "map_option qdata (map_of (onSettled c) k) = map_option qdata (map_of c k)"
  by (cases "map_of c k") (simp_all add: onSettled_def invalidateQueries_def map_of_mapMatching)

lemma onSettled_invalidated:
  "list_all (\<lambda>(k, q). partialMatchKey k userQueryKeys_all \<longrightarrow> isInvalidated q) (onSettled c)"
  unfolding onSettled_def invalidateQueries_def list_all_mapMatching
  by (induction c) auto

lemma onSettled_readFetches:
  "partialMatchKey k userQueryKeys_all \<Longrightarrow> readFetches (onSettled c) k"
  by (cases "map_of c k")
     (simp_all add: readFetches_def onSettled_def invalidateQueries_def map_of_mapMatching)

lemma keys_onSettled: "map fst (onSettled c) = map fst c"
  by (induction c) (auto simp add: onSettled_def invalidateQueries_def mapMatching_def)

lemma keys_setQueryData: "set (map fst c) \<subseteq> set (map fst (setQueryData k v c))"
  by (auto simp add: setQueryData_def dom_update)

lemma keys_restore: "set (map fst c) \<subseteq> set (map fst (fold (\<lambda>(k, d). setQueryData k d) prev c))"
proof (induction prev arbitrary: c)
  case Nil
  then show ?case by simp
next
  case (Cons e prev)
  obtain k d where e: "e = (k, d)" by (cases e)
  have "set (map fst c) \<subseteq> set (map fst (setQueryData k d c))" by (rule keys_setQueryData)
  also have "\<dots> \<subseteq> set (map fst (fold (\<lambda>(k, d). setQueryData k d) prev (setQueryData k d c)))"
    by (rule Cons.IH)
  finally show ?case by (simp add: e)
qed

lemma keys_onError: "set (map fst c) \<subseteq> set (map fst (onError ctx c))"
  using keys_restore by (cases ctx) (simp_all add: onError_def)

lemma toggle_outcome:
  "(\<exists>ctx. mutation (handleToggleStatus uid s st) = MPending ctx)
   \<or> (mutation (handleToggleStatus uid s st) = MError None
      \<and> list_all (\<lambda>(k, q). partialMatchKey k userQueryKeys_all \<longrightarrow> isInvalidated q)
            (cache (handleToggleStatus uid s st)))"
proof -
  obtain c ctx where o: "onMutate uid s (cache st) = (c, ctx)"
    by (cases "onMutate uid s (cache st)")
  show ?thesis
    by (cases ctx)
       (simp_all add: handleToggleStatus_def o failMutation_def onSettled_invalidated)
qed

text \<open>
  C3. However a pending mutation settles, acknowledged or rejected, afterwards every
  query of the family is marked invalidated, a read of any key of the family
  fetches, and no key of the cache is lost. A toggle leaves a mutation pending, or,
  when \<open>onMutate\<close> rejected, a failed one with the family already invalidated.
\<close>

theorem settle_invalidates:
  assumes "mutation st = MPending ctx"
  shows "list_all (\<lambda>(k, q). partialMatchKey k userQueryKeys_all \<longrightarrow> isInvalidated q)
           (cache (settle r st))
       \<and> (\<forall>k. partialMatchKey k userQueryKeys_all \<longrightarrow> readFetches (cache (settle r st)) k)
       \<and> set (map fst (cache st)) \<subseteq> set (map fst (cache (settle r st)))
       \<and> ((\<exists>ctx'. mutation (handleToggleStatus recordId newStatusValue st0) = MPending ctx')
          \<or> (mutation (handleToggleStatus recordId newStatusValue st0) = MError None
             \<and> list_all (\<lambda>(k, q). partialMatchKey k userQueryKeys_all \<longrightarrow> isInvalidated q)
                   (cache (handleToggleStatus recordId newStatusValue st0))))"
proof -
  have "list_all (\<lambda>(k, q). partialMatchKey k userQueryKeys_all \<longrightarrow> isInvalidated q)
           (cache (settle r st))
       \<and> (\<forall>k. partialMatchKey k userQueryKeys_all \<longrightarrow> readFetches (cache (settle r st)) k)
       \<and> set (map fst (cache st)) \<subseteq> set (map fst (cache (settle r st)))"
    using assms keys_onError[of "cache st" "Some ctx"]
    by (cases r)
       (simp_all add: settle_def failMutation_def onSettled_invalidated onSettled_readFetches
          keys_onSettled)
  with toggle_outcome[of recordId newStatusValue st0] show ?thesis by blast
qed

lemma qdata_restored:
  assumes "distinct (map fst c0)"
  shows "map_option qdata
           (map_of (onSettled (onError (Some (getQueriesData userQueryKeys_all c0)) c)) k)
         = (if partialMatchKey k userQueryKeys_all
            then (case map_of c0 k of
                    None \<Rightarrow> map_option qdata (map_of c k)
                  | Some q \<Rightarrow> if qdata q = JUndefined then map_option qdata (map_of c k)
                              else Some (qdata q))
            else map_option qdata (map_of c k))"
  by (simp add: qdata_invalidate onError_def
        map_of_restore[OF distinct_getQueriesData[OF assms]] map_of_getQueriesData setData_def
      split: option.splits)

lemma qdata_optimistic_cache:
  "map_option qdata
     (map_of (mapMatching userQueryKeys_all (writeBack (optimisticUpdater uid s))
                (cancelQueries userQueryKeys_all c0)) k)
   = (case map_of c0 k of
        None \<Rightarrow> None
      | Some q \<Rightarrow>
          Some (if partialMatchKey k userQueryKeys_all
                then qdata (writeBack (optimisticUpdater uid s) (q\<lparr>fetching := False\<rparr>))
                else qdata q))"
  by (simp add: map_of_mapMatching cancelQueries_def split: option.splits)

lemma qdata_writeBack_undefined:
  "qdata q = JUndefined \<Longrightarrow> qdata (writeBack (optimisticUpdater uid s) q) = JUndefined"
  by (rule qdata_writeBack) (simp add: updater_identity optChain_def)

text \<open>
  C2, as the code has it. A mutation started from a cache \<open>cache st0\<close> (one query per
  key) and rejected later, in a state \<open>st2\<close> whose cache may have changed in between:
  every query of the family that held a value at the start holds exactly that value
  again; a query of the family that held none is left with what it holds at the
  rejection; when the cache did not change in between, every key of the cache has
  the data it had at the start; the failed mutation still carries the snapshot; and
  the error snackbar has been shown.
\<close>

theorem failure_restores:
  assumes "distinct (map fst (cache st0))"
    and "familyUpdatable (cache st0)"
    and "mutation st2 = mutation (handleToggleStatus recordId newStatusValue st0)"
  shows "(\<forall>k q. map_of (cache st0) k = Some q \<and> partialMatchKey k userQueryKeys_all
                  \<and> qdata q \<noteq> JUndefined \<longrightarrow>
             map_option qdata (map_of (cache (settle Rejected st2)) k) = Some (qdata q))
       \<and> (\<forall>k q. map_of (cache st0) k = Some q \<and> partialMatchKey k userQueryKeys_all
                  \<and> qdata q = JUndefined \<longrightarrow>
             map_option qdata (map_of (cache (settle Rejected st2)) k)
               = map_option qdata (map_of (cache st2) k))
       \<and> (cache st2 = cache (handleToggleStatus recordId newStatusValue st0) \<longrightarrow>
            (\<forall>k. map_option qdata (map_of (cache (settle Rejected st2)) k)
                   = map_option qdata (map_of (cache st0) k)))
       \<and> mutation (settle Rejected st2)
           = MError (Some (map (\<lambda>(k, q). (k, qdata q))
                             (filter (\<lambda>(k, q). partialMatchKey k userQueryKeys_all) (cache st0))))
       \<and> snackbars (settle Rejected st2)
           = snackbars st2 @ [(''Failed to update user status'', ''error'')]"
proof -
  let ?prev = "getQueriesData userQueryKeys_all (cache st0)"
  have pending: "mutation st2 = MPending ?prev"
    by (simp add: assms(3) handleToggleStatus_ok[OF assms(2)])
  then have settled: "settle Rejected st2 = failMutation (Some ?prev) st2"
    by (simp add: settle_def)
  have c: "cache (settle Rejected st2) = onSettled (onError (Some ?prev) (cache st2))"
    by (simp add: settled failMutation_def)
  have A: "\<forall>k q. map_of (cache st0) k = Some q \<and> partialMatchKey k userQueryKeys_all
                  \<and> qdata q \<noteq> JUndefined \<longrightarrow>
             map_option qdata (map_of (cache (settle Rejected st2)) k) = Some (qdata q)"
    by (simp add: c qdata_restored[OF assms(1)])
  have A': "\<forall>k q. map_of (cache st0) k = Some q \<and> partialMatchKey k userQueryKeys_all
                  \<and> qdata q = JUndefined \<longrightarrow>
             map_option qdata (map_of (cache (settle Rejected st2)) k)
               = map_option qdata (map_of (cache st2) k)"
    by (simp add: c qdata_restored[OF assms(1)])
  have B: "cache st2 = cache (handleToggleStatus recordId newStatusValue st0) \<longrightarrow>
            (\<forall>k. map_option qdata (map_of (cache (settle Rejected st2)) k)
                   = map_option qdata (map_of (cache st0) k))"
  proof (intro impI allI)
    fix k
    assume "cache st2 = cache (handleToggleStatus recordId newStatusValue st0)"
    then have c2: "cache st2 =
        mapMatching userQueryKeys_all (writeBack (optimisticUpdater recordId newStatusValue))
          (cancelQueries userQueryKeys_all (cache st0))"
      by (simp add: handleToggleStatus_ok[OF assms(2)])
    show "map_option qdata (map_of (cache (settle Rejected st2)) k)
            = map_option qdata (map_of (cache st0) k)"
      unfolding c qdata_restored[OF assms(1)] c2 qdata_optimistic_cache
      by (simp add: qdata_writeBack_undefined split: option.splits)
  qed
  from A A' B show ?thesis
    by (simp add: settled failMutation_def getQueriesData_def)
qed

section \<open>The concrete page\<close>

lemmas demo_defs = demoApp_def demoParams_def demoResponse_def demoUser1_def demoUser2_def
  userQueryKeys_list_def userQueryKeys_all_def partialMatchKey_def

lemma demo_updatable: "familyUpdatable (cache demoApp)"
  by (simp add: demo_defs familyUpdatable_def updatable_def optChain_def)

lemma demo_distinct: "distinct (map fst (cache demoApp))"
  by (simp add: demoApp_def)

lemma demo_started: "handleToggleStatus ''u1'' ''inactive'' demoApp = demoPending"
  unfolding handleToggleStatus_ok[OF demo_updatable]
  by (simp add: mapMatching_def cancelQueries_def writeBack_def getQueriesData_def
        optimisticUpdater_def updateUser_def getprop_def optChain_def spreadWith_def setData_def
        demoPending_def demoUser1'_def demo_defs)

theorem mutation_start_witness:
  "familyUpdatable (cache demoApp)
   \<and> dispatched (handleToggleStatus ''u1'' ''inactive'' demoApp) = [(''u1'', ''inactive'')]
   \<and> mutation (handleToggleStatus ''u1'' ''inactive'' demoApp)
       = MPending [(userQueryKeys_list demoParams, demoResponse)]"
  using mutation_start[OF demo_updatable, of "''u1''" "''inactive''"] demo_updatable
  by (simp add: demo_defs)

theorem failure_restores_witness:
  "distinct (map fst (cache demoApp)) \<and> familyUpdatable (cache demoApp)
   \<and> map_option qdata
       (map_of (cache (settle Rejected (handleToggleStatus ''u1'' ''inactive'' demoApp)))
          (userQueryKeys_list demoParams))
       = Some demoResponse
   \<and> snackbars (settle Rejected (handleToggleStatus ''u1'' ''inactive'' demoApp))
       = [(''Failed to update user status'', ''error'')]"
proof -
  have s: "snackbars (handleToggleStatus ''u1'' ''inactive'' demoApp) = []"
    by (simp add: demo_started demoPending_def)
  have q: "map_of (cache demoApp) (userQueryKeys_list demoParams)
      = Some \<lparr>qdata = demoResponse, fetching = True, isInvalidated = False, active = True\<rparr>"
    by (simp add: demoApp_def)
  have m: "partialMatchKey (userQueryKeys_list demoParams) userQueryKeys_all"
    by (simp add: demo_defs)
  have d: "demoResponse \<noteq> JUndefined" by (simp add: demoResponse_def)
  from failure_restores[OF demo_distinct demo_updatable refl, of "''u1''" "''inactive''"]
  have "map_option qdata
       (map_of (cache (settle Rejected (handleToggleStatus ''u1'' ''inactive'' demoApp)))
          (userQueryKeys_list demoParams)) = Some demoResponse"
    and "snackbars (settle Rejected (handleToggleStatus ''u1'' ''inactive'' demoApp))
       = snackbars (handleToggleStatus ''u1'' ''inactive'' demoApp)
           @ [(''Failed to update user status'', ''error'')]"
    using q m d by auto
  then show ?thesis
    using demo_updatable demo_distinct s by simp
qed

lemma demo2_updatable: "familyUpdatable (cache demoApp2)"
  by (simp add: demoApp2_def demoParams2_def demo_defs familyUpdatable_def updatable_def
        optChain_def)

lemma demo2_started:
  "handleToggleStatus ''u1'' ''inactive'' demoApp2 =
     \<lparr>cache = [(userQueryKeys_list demoParams,
                 \<lparr>qdata = JObj [(''data'', JObj [(''users'', JArr [demoUser1', demoUser2]),
                                                  (''totalCount'', JNum 2)])],
                  fetching = False, isInvalidated = False, active = True\<rparr>),
                (userQueryKeys_list demoParams2,
                 \<lparr>qdata = JUndefined, fetching = False, isInvalidated = False, active = False\<rparr>)],
      mutation = MPending [(userQueryKeys_list demoParams, demoResponse),
                           (userQueryKeys_list demoParams2, JUndefined)],
      dispatched = [(''u1'', ''inactive'')], snackbars = []\<rparr>"
  unfolding handleToggleStatus_ok[OF demo2_updatable]
  by (simp add: mapMatching_def cancelQueries_def writeBack_def getQueriesData_def
        optimisticUpdater_def updateUser_def getprop_def optChain_def spreadWith_def setData_def
        demoApp2_def demoParams2_def demoUser1'_def demo_defs)

text \<open>
  C2 as stated fails, twice. The second page had no data when the snapshot was
  taken; a fetch brought its data while the write was in flight; after the rejection
  the page still has that data, not the captured \<open>undefined\<close>, for \<open>setQueryData\<close>
  ignores \<open>undefined\<close>. And the failed mutation still carries the snapshot: nothing
  discards it.
\<close>

theorem failure_restores_counterexample:
  "mutation demoLanded
     = MPending [(userQueryKeys_list demoParams, demoResponse),
                 (userQueryKeys_list demoParams2, JUndefined)]
   \<and> map_option qdata (map_of (cache (settle Rejected demoLanded)) (userQueryKeys_list demoParams2))
       = Some demoResponse2
   \<and> demoResponse2 \<noteq> JUndefined
   \<and> mutation (settle Rejected demoLanded)
       = MError (Some [(userQueryKeys_list demoParams, demoResponse),
                       (userQueryKeys_list demoParams2, JUndefined)])"
  unfolding demoLanded_def demo2_started
  by (simp add: settle_def failMutation_def onSettled_def onError_def invalidateQueries_def
        mapMatching_def setQueryData_def setData_def fetchSucceeded_def
        demoParams2_def demoResponse2_def demo_defs)

theorem settle_invalidates_witness:
  "mutation (handleToggleStatus ''u1'' ''inactive'' demoApp)
     = MPending [(userQueryKeys_list demoParams, demoResponse)]
   \<and> readFetches
       (cache (settle (Acknowledged ''ok'') (handleToggleStatus ''u1'' ''inactive'' demoApp)))
       (userQueryKeys_list demoParams)
   \<and> readFetches
       (cache (settle Rejected (handleToggleStatus ''u1'' ''inactive'' demoApp)))
       (userQueryKeys_list demoParams)"
proof -
  have p: "mutation (handleToggleStatus ''u1'' ''inactive'' demoApp)
     = MPending [(userQueryKeys_list demoParams, demoResponse)]"
    by (simp add: demo_started demoPending_def)
  have m: "partialMatchKey (userQueryKeys_list demoParams) userQueryKeys_all"
    by (simp add: demo_defs)
  from settle_invalidates[OF p, of "Acknowledged ''ok''"] settle_invalidates[OF p, of Rejected] p m
  show ?thesis by blast
qed

section \<open>Properties of the actions column\<close>

lemma mapM_spinner:
  "mapM (\<lambda>user. map_option (Pair user) (UserActions user True)) us
     = Some (map (\<lambda>u. (u, Spinner)) us)"
  by (induction us) (simp_all add: UserActions_def)

lemma mapM_buttons:
  "list_all (\<lambda>u. \<not> nullish u) us \<Longrightarrow>
   mapM (\<lambda>user. map_option (Pair user) (UserActions user False)) us
     = Some (map (\<lambda>u. (u, ToggleButton (propOf u ''status'' = JStr ''active''))) us)"
  by (induction us) (simp_all add: UserActions_def getprop_def)

text \<open>
  C8, as the code has it. The page hands the one \<open>isPending\<close> flag of the mutation
  hook to every row: while a write is pending every row of the page shows the
  progress indicator, and otherwise every row shows its toggle button. The flag is
  set by a toggle and cleared when the write settles.
\<close>

theorem pending_flag_shared:
  assumes "optChain (optChain (useUsers (cache st) params) ''data'') ''users'' = JArr us"
  shows "(isUpdating st \<longrightarrow> actionsColumn st params = Some (map (\<lambda>u. (u, Spinner)) us))
       \<and> (\<not> isUpdating st \<and> list_all (\<lambda>u. \<not> nullish u) us \<longrightarrow>
            actionsColumn st params
              = Some (map (\<lambda>u. (u, ToggleButton (propOf u ''status'' = JStr ''active''))) us))
       \<and> (familyUpdatable (cache st) \<longrightarrow> isUpdating (handleToggleStatus recordId newStatusValue st))
       \<and> \<not> isUpdating (settle r st)"
proof -
  have "\<not> isUpdating (settle r st)"
    by (cases "mutation st"; cases r) (simp_all add: settle_def isUpdating_def failMutation_def)
  moreover have "familyUpdatable (cache st) \<longrightarrow> isUpdating (handleToggleStatus recordId newStatusValue st)"
    by (simp add: handleToggleStatus_ok isUpdating_def)
  ultimately show ?thesis
    using assms mapM_spinner[of us] mapM_buttons[of us]
    by (auto simp add: actionsColumn_def usersWithActions_def Let_def)
qed

text \<open>
  C8 as stated fails: with the write for user \<open>u1\<close> in flight, the row of user
  \<open>u2\<close>, which has no write in flight, shows the progress indicator too.
\<close>

theorem pending_flag_counterexample:
  "actionsColumn (handleToggleStatus ''u1'' ''inactive'' demoApp) demoParams
     = Some [(demoUser1', Spinner), (demoUser2, Spinner)]"
  unfolding demo_started
  by (simp add: actionsColumn_def usersWithActions_def useUsers_def isUpdating_def
        optChain_def UserActions_def demoPending_def)

theorem pending_flag_shared_witness:
  "optChain (optChain (useUsers (cache demoApp) demoParams) ''data'') ''users''
     = JArr [demoUser1, demoUser2]
   \<and> actionsColumn demoApp demoParams
       = Some [(demoUser1, ToggleButton True), (demoUser2, ToggleButton True)]
   \<and> isUpdating (handleToggleStatus ''u1'' ''inactive'' demoApp)"
proof -
  have u: "optChain (optChain (useUsers (cache demoApp) demoParams) ''data'') ''users''
     = JArr [demoUser1, demoUser2]"
    by (simp add: useUsers_def optChain_def demoApp_def demoResponse_def)
  have n: "\<not> isUpdating demoApp" by (simp add: isUpdating_def demoApp_def)
  from pending_flag_shared[OF u, of "''u1''" "''inactive''"] u n demo_updatable
  show ?thesis by (simp add: demoUser1_def demoUser2_def)
qed

section \<open>Properties of the numbers\<close>

lemma bitLength_0 [simp]: "bitLength 0 = 0"
  by (subst bitLength.simps) simp

lemma bitLength_1 [simp]: "bitLength (Suc 0) = Suc 0"
  by (subst bitLength.simps) simp

lemma bitLength_numeral [simp]:
  "bitLength (numeral k) = Suc (bitLength (numeral k div 2))"
  by (subst bitLength.simps) simp


lemma roundDouble_safe: "\<bar>n\<bar> < 2 ^ 53 \<Longrightarrow> roundDouble n = Fin n"
  by (simp add: roundDouble_def Let_def nat_less_iff)

lemma bitLength_bounds: "0 < n \<Longrightarrow> 2 ^ (bitLength n - 1) \<le> n \<and> n < 2 ^ bitLength n"
proof (induction n rule: bitLength.induct)
  case (1 n)
  show ?case
  proof (cases "n div 2 = 0")
    case True
    with "1.prems" have "n = 1" by arith
    then show ?thesis by simp
  next
    case False
    then have pos: "0 < n div 2" by simp
    from "1.IH"[OF _ pos] "1.prems"
    have ih: "2 ^ (bitLength (n div 2) - 1) \<le> n div 2" "n div 2 < 2 ^ bitLength (n div 2)"
      by simp_all
    have bl: "bitLength n = Suc (bitLength (n div 2))"
      using "1.prems" by (subst bitLength.simps) simp
    have "0 < bitLength (n div 2)"
      using pos by (subst bitLength.simps) simp
    then have e: "2 ^ (bitLength n - 1) = 2 * (2::nat) ^ (bitLength (n div 2) - 1)"
      by (cases "bitLength (n div 2)") (simp_all add: bl)
    from ih show ?thesis
      unfolding e by (simp add: bl) arith
  qed
qed

lemma roundDouble_big:
  assumes "2 ^ 53 \<le> a" and "b < 2 ^ 53"
  shows "roundDouble (int a) \<noteq> Fin (int b)"
proof -
  define e where "e = bitLength a - 53"
  define q where "q = a div 2 ^ e"
  define m where "m = (if 2 ^ (e - 1) < a mod 2 ^ e \<or> (a mod 2 ^ e = 2 ^ (e - 1) \<and> odd q)
                       then q + 1 else q)"
  have apos: "0 < a" using assms(1) by (simp add: less_le_trans[of 0 "2 ^ 53"])
  from bitLength_bounds[OF apos] have lo: "2 ^ (bitLength a - 1) \<le> a" and hi: "a < 2 ^ bitLength a"
    by simp_all
  from assms(1) hi have "(2::nat) ^ 53 < 2 ^ bitLength a" by (rule le_less_trans)
  then have bl: "53 < bitLength a" by (rule power_less_imp_less_exp[rotated]) simp
  then have huge_parse: "1 \<le> e" and ble: "bitLength a - 1 = e + 52" by (simp_all add: e_def)
  have "(2::nat) ^ (e + 52) \<le> a" using lo unfolding ble .
  then have "2 ^ 52 * (2::nat) ^ e \<le> a" by (simp add: power_add mult.commute)
  then have "2 ^ 52 \<le> q"
    unfolding q_def by (simp add: less_eq_div_iff_mult_less_eq)
  then have "2 ^ 52 \<le> m" by (simp add: m_def)
  moreover have "(2::nat) \<le> 2 ^ e" using huge_parse by (cases e) simp_all
  ultimately have "2 ^ 52 * 2 \<le> m * 2 ^ e" by (rule mult_le_mono)
  then have big: "2 ^ 53 \<le> m * 2 ^ e" by simp
  have "roundDouble (int a) =
          (if 2 ^ 1024 \<le> m * 2 ^ e then PosInfinity else Fin (int (m * 2 ^ e)))"
    using assms(1) by (simp add: roundDouble_def Let_def e_def q_def m_def)
  with big assms(2) show ?thesis by (auto simp del: of_nat_mult of_nat_power)
qed

lemma shortestDecimal_safe: "x < 2 ^ 53 \<Longrightarrow> shortestDecimal p x = x"
proof (induction p)
  case 0
  then show ?case by simp
next
  case (Suc p)
  define t :: nat where "t = 10 ^ Suc p"
  define lo where "lo = (x div t) * t"
  have tpos: "0 < t" by (simp add: t_def)
  have lo: "lo \<le> x" by (simp add: lo_def)
  have hi: "x < lo + t"
    using div_mult_mod_eq[of x t] mod_less_divisor[OF tpos, of x] unfolding lo_def by linarith
  have okLo: "roundDouble (int lo) = Fin (int x) \<longleftrightarrow> lo = x"
  proof -
    from lo Suc.prems have "lo < 2 ^ 53" by simp
    then have "roundDouble (int lo) = Fin (int lo)"
      by (intro roundDouble_safe) simp
    then show ?thesis by simp
  qed
  have okHi: "roundDouble (int (lo + t)) \<noteq> Fin (int x)"
  proof (cases "lo + t < 2 ^ 53")
    case True
    then have "roundDouble (int (lo + t)) = Fin (int (lo + t))"
      by (intro roundDouble_safe) simp
    with hi show ?thesis by simp
  next
    case False
    then show ?thesis using roundDouble_big[of "lo + t" x] Suc.prems by simp
  qed
  have "shortestDecimal (Suc p) x =
      (let okLo = (0 < lo \<and> roundDouble (int lo) = Fin (int x));
           okHi = (roundDouble (int (lo + t)) = Fin (int x))
       in if okLo \<and> okHi then
            (if x - lo < lo + t - x then lo
             else if lo + t - x < x - lo then lo + t
             else if even (x div t) then lo else lo + t)
          else if okLo then lo
          else if okHi then lo + t
          else shortestDecimal p x)"
    unfolding shortestDecimal.simps t_def lo_def Let_def ..
  then show ?case
    using okLo okHi Suc.IH[OF Suc.prems] by (simp add: Let_def)
qed

lemma natToString_small: "n < 10 \<Longrightarrow> natToString n = [digitChar n]"
  by (subst natToString.simps) simp

lemma natToString_large:
  "\<not> n < 10 \<Longrightarrow> natToString n = natToString (n div 10) @ [digitChar (n mod 10)]"
  by (subst natToString.simps) simp

lemma natToString_length: "0 < k \<Longrightarrow> n < 10 ^ k \<Longrightarrow> length (natToString n) \<le> k"
proof (induction n arbitrary: k rule: natToString.induct)
  case (1 n)
  show ?case
  proof (cases "n < 10")
    case True
    with "1.prems" show ?thesis by (simp add: natToString_small)
  next
    case False
    with "1.prems" obtain j where k: "k = Suc j" and j: "0 < j"
      by (cases k; cases "k - 1") auto
    from "1.prems" k have "n div 10 < 10 ^ j" by (simp add: less_mult_imp_div_less mult.commute)
    from "1.IH"[OF False j this] show ?thesis
      using False by (simp add: natToString_large k)
  qed
qed

lemma digitValue_digitChar: "d < 10 \<Longrightarrow> digitValue (digitChar d) = d"
  by (simp add: digitValue_def digitChar_def)

lemma natToString_digits: "c \<in> set (natToString n) \<Longrightarrow> digitValue c < 10"
proof (induction n rule: natToString.induct)
  case (1 n)
  show ?case
  proof (cases "n < 10")
    case True
    with "1.prems" show ?thesis
      by (simp add: natToString_small digitValue_digitChar)
  next
    case False
    with "1.prems" have "c \<in> set (natToString (n div 10)) \<or> c = digitChar (n mod 10)"
      by (auto simp add: natToString_large)
    with "1.IH"[OF False] show ?thesis
      by (auto simp add: digitValue_digitChar)
  qed
qed

lemma natToString_nonempty: "natToString n \<noteq> []"
  by (cases "n < 10") (simp_all add: natToString_small natToString_large)

lemma natToString_value:
  "foldl (\<lambda>acc c. acc * 10 + digitValue c) 0 (natToString n) = n"
proof (induction n rule: natToString.induct)
  case (1 n)
  show ?case
  proof (cases "n < 10")
    case True
    then show ?thesis by (simp add: natToString_small digitValue_digitChar)
  next
    case False
    then show ?thesis
      using "1.IH"[OF False] by (simp add: natToString_large digitValue_digitChar)
  qed
qed

lemma numToString_safe:
  assumes "\<bar>n\<bar> < 2 ^ 53"
  shows "numToString (Fin n) = (if n < 0 then ''-'' else []) @ natToString (nat \<bar>n\<bar>)"
proof -
  from assms have a: "nat \<bar>n\<bar> < 2 ^ 53" by (simp add: nat_less_iff)
  then have "nat \<bar>n\<bar> < 10 ^ 21" by simp
  then have "length (natToString (nat \<bar>n\<bar>)) \<le> 21"
    by (intro natToString_length) simp_all
  then show ?thesis
    by (simp add: numToString_def shortestDecimal_safe[OF a] printDecimal_def)
qed


lemma digit_not_special:
  assumes "digitValue c < 10"
  shows "\<not> isWhiteSpace c" "c \<noteq> CHR ''-''" "c \<noteq> CHR ''+''" "c \<noteq> CHR ''x''" "c \<noteq> CHR ''X''"
  using assms by (auto simp add: digitValue_def isWhiteSpace_def Let_def split: if_splits)

lemma parseInt_digits:
  assumes "ds \<noteq> []" and "\<And>c. c \<in> set ds \<Longrightarrow> digitValue c < 10"
  shows "parseInt ds = roundDouble (int (foldl (\<lambda>acc c. acc * 10 + digitValue c) 0 ds))"
    and "parseInt (CHR ''-'' # ds)
           = roundDouble (- int (foldl (\<lambda>acc c. acc * 10 + digitValue c) 0 ds))"
proof -
  obtain d ds' where ds: "ds = d # ds'" using assms(1) by (cases ds) auto
  have d: "digitValue d < 10" using assms(2) ds by simp
  have nohex: "(case ds of a # b # cs \<Rightarrow> a = CHR ''0'' \<and> (b = CHR ''x'' \<or> b = CHR ''X'')
                 | _ \<Rightarrow> False) = False"
  proof (cases ds')
    case Nil
    then show ?thesis by (simp add: ds)
  next
    case (Cons b cs)
    then have "digitValue b < 10" using assms(2) ds by simp
    then show ?thesis using digit_not_special(4,5) by (auto simp add: ds Cons)
  qed
  have tw: "takeWhile (\<lambda>c. digitValue c < 10) ds = ds"
    using assms(2) by (simp add: takeWhile_eq_all_conv)
  have dw: "dropWhile isWhiteSpace ds = ds"
    using digit_not_special(1)[OF d] by (simp add: ds)
  have neg: "(case ds of c # cs \<Rightarrow> c = CHR ''-'' | [] \<Rightarrow> False) = False"
    using digit_not_special(2)[OF d] by (simp add: ds)
  have s1: "(case ds of c # cs \<Rightarrow> if c = CHR ''-'' \<or> c = CHR ''+'' then cs else ds | [] \<Rightarrow> []) = ds"
    using digit_not_special(2,3)[OF d] by (simp add: ds)
  have "parseInt ds =
      (if takeWhile (\<lambda>c. digitValue c < 10) ds = [] then NaN
       else roundDouble (1 * int (foldl (\<lambda>acc c. acc * 10 + digitValue c) 0
                             (takeWhile (\<lambda>c. digitValue c < 10) ds))))"
    by (simp only: parseInt_def Let_def dw neg s1 nohex if_False)
  then show "parseInt ds = roundDouble (int (foldl (\<lambda>acc c. acc * 10 + digitValue c) 0 ds))"
    using assms(1) by (simp only: tw) simp
  have dw': "dropWhile isWhiteSpace (CHR ''-'' # ds) = CHR ''-'' # ds"
    by (simp add: isWhiteSpace_def)
  have "parseInt (CHR ''-'' # ds) =
      (if takeWhile (\<lambda>c. digitValue c < 10) ds = [] then NaN
       else roundDouble (- 1 * int (foldl (\<lambda>acc c. acc * 10 + digitValue c) 0
                             (takeWhile (\<lambda>c. digitValue c < 10) ds))))"
    by (simp only: parseInt_def Let_def dw' list.case simp_thms if_True nohex if_False)
  then show "parseInt (CHR ''-'' # ds)
           = roundDouble (- int (foldl (\<lambda>acc c. acc * 10 + digitValue c) 0 ds))"
    using assms(1) by (simp only: tw) simp
qed

lemma parseInt_numToString:
  assumes "\<bar>n\<bar> < 2 ^ 53"
  shows "parseInt (numToString (Fin n)) = Fin n"
proof (cases "n < 0")
  case True
  then show ?thesis
    using parseInt_digits(2)[OF natToString_nonempty natToString_digits, of "nat (- n)"]
    by (simp add: numToString_safe[OF assms] natToString_value roundDouble_safe[OF assms])
next
  case False
  then show ?thesis
    using parseInt_digits(1)[OF natToString_nonempty natToString_digits, of "nat n"]
    by (simp add: numToString_safe[OF assms] natToString_value roundDouble_safe[OF assms])
qed

lemma parseInt_NaN: "parseInt ''NaN'' = NaN"
  by (simp add: parseInt_def isWhiteSpace_def digitValue_def)

lemma printDecimal_nonempty: "printDecimal v \<noteq> []"
  by (simp add: printDecimal_def Let_def natToString_nonempty split: list.splits)

lemma numToString_nonempty: "numToString x \<noteq> []"
  by (cases x) (simp_all add: numToString_def printDecimal_nonempty)

lemma digitChar_values:
  "digitChar 0 = CHR ''0''" "digitChar (Suc 0) = CHR ''1''" "digitChar 2 = CHR ''2''"
  "digitChar 3 = CHR ''3''" "digitChar 4 = CHR ''4''" "digitChar 5 = CHR ''5''"
  "digitChar 6 = CHR ''6''" "digitChar 7 = CHR ''7''" "digitChar 8 = CHR ''8''"
  "digitChar 9 = CHR ''9''"
  by code_simp+

lemma natToString_numeral:
  "natToString (numeral k) =
     (if numeral k < (10::nat) then [digitChar (numeral k)]
      else natToString (numeral k div 10) @ [digitChar (numeral k mod 10)])"
  "natToString 0 = ''0''" "natToString (Suc 0) = ''1''"
  by (subst natToString.simps, simp add: digitChar_values)+

lemma shortestDecimal_numeral:
  "shortestDecimal (numeral k) x =
     (let t = 10 ^ numeral k;
          lo = (x div t) * t;
          hi = lo + t;
          okLo = (0 < lo \<and> roundDouble (int lo) = Fin (int x));
          okHi = (roundDouble (int hi) = Fin (int x))
      in if okLo \<and> okHi then
           (if x - lo < hi - x then lo
            else if hi - x < x - lo then hi
            else if even (x div t) then lo else hi)
         else if okLo then lo
         else if okHi then hi
         else shortestDecimal (pred_numeral k) x)"
  by (simp add: numeral_eq_Suc Let_def del: power_Suc)

lemma huge_parse: "parseInt ''1000000000000000000000'' = Fin 1000000000000000000000"
  by (simp add: parseInt_def isWhiteSpace_def digitValue_def roundDouble_def Let_def)

lemma huge_minus: "numAdd (Fin 1000000000000000000000) (- 1) = Fin 1000000000000000000000"
  by (simp add: numAdd_def roundDouble_def Let_def)

lemma huge_plus: "numAdd (Fin 1000000000000000000000) 1 = Fin 1000000000000000000000"
  by (simp add: numAdd_def roundDouble_def Let_def)

lemma huge_digits: "natToString 1000000000000000000000 = ''1000000000000000000000''"
  by (simp add: natToString_numeral digitChar_values)

lemma huge_shortest: "shortestDecimal 22 1000000000000000000000 = 1000000000000000000000"
  by (simp add: shortestDecimal_numeral roundDouble_def Let_def)

lemma huge_print: "numToString (Fin 1000000000000000000000) = ''1e+21''"
proof -
  have len: "length ''1000000000000000000000'' = 22" by simp
  have n21: "natToString 21 = ''21''" by (simp add: natToString_numeral digitChar_values)
  have strip: "rev (dropWhile (\<lambda>c. c = CHR ''0'') (rev ''1000000000000000000000'')) = ''1''"
    by simp
  have p: "printDecimal 1000000000000000000000 = ''1e+21''"
    unfolding printDecimal_def huge_digits Let_def len strip by (simp add: n21)
  have a: "nat \<bar>1000000000000000000000 :: int\<bar> = 1000000000000000000000" by simp
  show ?thesis
    unfolding numToString_def jsnum.case a huge_digits len huge_shortest p by simp
qed

lemma exponent_parse: "parseInt ''1e+21'' = Fin 1"
  by (simp add: parseInt_def isWhiteSpace_def digitValue_def roundDouble_def Let_def)

lemma one_print: "numToString (Fin 1) = ''1''"
  by (simp add: numToString_safe natToString_small digitChar_values)

section \<open>Properties of the view state\<close>

lemma orElse_nonempty: "d \<noteq> [] \<Longrightarrow> orElse x d \<noteq> []"
  by (simp add: orElse_def split: option.splits)

lemma reachable_encodable: "reachable s \<Longrightarrow> encodable s"
proof (induction rule: reachable.induct)
  case (mounted searchParams vis)
  then show ?case
    by (simp add: encodable_def initialState_def orElse_nonempty split: option.splits)
next
  case (filtered s v)
  then show ?case by (auto simp add: encodable_def handleStatusFilterChange_def)
qed (simp_all add: encodable_def handleSearchChange_def debounceSettle_def
       handlePaginationChange_def setSorting_def setColumnVisibility_def)

lemma page_roundtrip:
  assumes "case x of NaN \<Rightarrow> True | Fin n \<Rightarrow> - (2 ^ 53) < n \<and> n + 1 < 2 ^ 53 | _ \<Rightarrow> False"
  shows "numAdd (parseInt (numToString (numAdd x 1))) (- 1) = x"
proof (cases x)
  case NaN
  then show ?thesis by (simp add: numAdd_def numToString_def parseInt_NaN)
next
  case (Fin n)
  with assms have n: "\<bar>n\<bar> < 2 ^ 53" and n1: "\<bar>n + 1\<bar> < 2 ^ 53"
    by (simp_all add: abs_less_iff)
  have "numAdd x 1 = Fin (n + 1)"
    by (simp add: Fin numAdd_def roundDouble_safe[OF n1])
  then show ?thesis
    by (simp add: parseInt_numToString[OF n1] numAdd_def roundDouble_safe[OF n] Fin)
qed (use assms in simp_all)

lemma get_page:
  "map_of (urlParams s) ''page''
     = Some (numToString (numAdd (pageIndex (pagination s)) 1))"
  by (simp add: urlParams_def)

lemma get_status:
  "map_of (urlParams s) ''status''
     = (if statusFilter s \<noteq> ''all'' then Some (statusFilter s) else None)"
  by (cases "sorting s") (auto simp add: urlParams_def)

lemma get_search:
  "map_of (urlParams s) ''search''
     = (if debouncedSearchQuery s \<noteq> [] then Some (debouncedSearchQuery s) else None)"
  by (cases "sorting s") (auto simp add: urlParams_def)

lemma get_sort:
  "map_of (urlParams s) ''sort''
     = (case sorting s of [] \<Rightarrow> None | (sid, desc) # rest \<Rightarrow> Some sid)"
  by (cases "sorting s") (auto simp add: urlParams_def)

lemma get_order:
  "map_of (urlParams s) ''order''
     = (case sorting s of [] \<Rightarrow> None
        | (sid, desc) # rest \<Rightarrow> Some (if desc then ''desc'' else ''asc''))"
  by (cases "sorting s") (auto simp add: urlParams_def)

lemmas url_gets = get_page get_status get_search get_sort get_order

lemma decode_encode:
  assumes "encodable s" and "safePage s"
  shows "initialState (urlParams s) vis =
           \<lparr>searchQuery = debouncedSearchQuery s,
            statusFilter = statusFilter s,
            pagination = \<lparr>pageIndex = pageIndex (pagination s), tablePageSize = 10\<rparr>,
            columnVisibility = vis,
            sorting = take 1 (sorting s),
            debouncedSearchQuery = debouncedSearchQuery s\<rparr>"
proof -
  from assms have sf: "statusFilter s \<noteq> []" by (simp add: encodable_def)
  have st: "orElse (map_of (urlParams s) ''status'') ''all'' = statusFilter s"
    using sf by (simp add: get_status orElse_def)
  have se: "orElse (map_of (urlParams s) ''search'') [] = debouncedSearchQuery s"
    by (simp add: get_search orElse_def)
  have pg: "(case map_of (urlParams s) ''page'' of
              Some p \<Rightarrow> if p \<noteq> [] then numAdd (parseInt p) (- 1) else Fin 0
            | None \<Rightarrow> Fin 0) = pageIndex (pagination s)"
    using page_roundtrip[of "pageIndex (pagination s)"] assms(2)
    by (simp add: get_page numToString_nonempty safePage_def)
  have so: "(case map_of (urlParams s) ''sort'' of
           Some sortParam \<Rightarrow>
             if sortParam \<noteq> [] then [(sortParam, map_of (urlParams s) ''order'' = Some ''desc'')]
             else []
         | None \<Rightarrow> []) = take 1 (sorting s)"
  proof (cases "sorting s")
    case Nil
    then show ?thesis by (simp add: get_sort)
  next
    case (Cons x rest)
    obtain sid desc where x: "x = (sid, desc)" by (cases x)
    from assms Cons x have "sid \<noteq> []" by (simp add: encodable_def)
    then show ?thesis by (simp add: get_sort get_order Cons x)
  qed
  show ?thesis
    unfolding initialState_def st se pg so ..
qed

lemma urlParams_cong:
  assumes "pageIndex (pagination t) = pageIndex (pagination s)"
    and "statusFilter t = statusFilter s"
    and "debouncedSearchQuery t = debouncedSearchQuery s"
    and "sorting t = take 1 (sorting s)"
  shows "urlParams t = urlParams s"
  using assms by (cases "sorting s") (simp_all add: urlParams_def)

text \<open>
  C5, as the code has it. For every state the page can reach whose page index is
  \<open>NaN\<close>, or is with the page number after it a safe integer, reading the URL that
  the state encodes gives back the state's page index, status filter, debounced
  search text and first sort entry (the one the URL carries), and encoding that
  state again gives the same URL.
\<close>

theorem url_roundtrip:
  assumes "reachable s" and "safePage s"
  shows "pageIndex (pagination (initialState (urlParams s) vis)) = pageIndex (pagination s)
       \<and> statusFilter (initialState (urlParams s) vis) = statusFilter s
       \<and> searchQuery (initialState (urlParams s) vis) = debouncedSearchQuery s
       \<and> debouncedSearchQuery (initialState (urlParams s) vis) = debouncedSearchQuery s
       \<and> sorting (initialState (urlParams s) vis) = take 1 (sorting s)
       \<and> urlParams (initialState (urlParams s) vis) = urlParams s"
proof -
  note d = decode_encode[OF reachable_encodable[OF assms(1)] assms(2), of vis]
  have "urlParams (initialState (urlParams s) vis) = urlParams s"
    by (rule urlParams_cong) (simp_all add: d)
  then show ?thesis by (simp add: d)
qed

lemma three_parse: "parseInt ''3'' = Fin 3"
  by (simp add: parseInt_def isWhiteSpace_def digitValue_def roundDouble_def Let_def)

lemma demoView_value:
  "demoView =
     \<lparr>searchQuery = [], statusFilter = ''active'',
      pagination = \<lparr>pageIndex = Fin 2, tablePageSize = 10\<rparr>,
      columnVisibility = JObj [], sorting = [(''name'', False)],
      debouncedSearchQuery = []\<rparr>"
  by (simp add: demoView_def initialState_def orElse_def three_parse numAdd_def roundDouble_safe)

lemma three_print: "numToString (numAdd (Fin 2) 1) = ''3''"
  by (simp add: numAdd_def roundDouble_safe numToString_safe natToString_small digitChar_values)

theorem url_roundtrip_witness:
  "reachable demoView \<and> safePage demoView
   \<and> urlParams demoView
       = [(''page'', ''3''), (''status'', ''active''), (''sort'', ''name''), (''order'', ''asc'')]
   \<and> urlParams (initialState (urlParams demoView) (JObj [])) = urlParams demoView
   \<and> pageIndex (pagination (initialState (urlParams demoView) (JObj []))) = Fin 2"
proof -
  have r: "reachable demoView" unfolding demoView_def by (rule reachable.mounted)
  have sp: "safePage demoView" by (simp add: demoView_value safePage_def)
  have u: "urlParams demoView
       = [(''page'', ''3''), (''status'', ''active''), (''sort'', ''name''), (''order'', ''asc'')]"
    by (simp add: demoView_value urlParams_def three_print)
  from url_roundtrip[OF r sp, of "JObj []"] r sp u show ?thesis
    by (simp add: demoView_value)
qed

lemma demoHuge_value:
  "demoHuge =
     \<lparr>searchQuery = [], statusFilter = ''all'',
      pagination = \<lparr>pageIndex = Fin 1000000000000000000000, tablePageSize = 10\<rparr>,
      columnVisibility = JObj [], sorting = [],
      debouncedSearchQuery = []\<rparr>"
  by (simp add: demoHuge_def initialState_def orElse_def huge_parse huge_minus)

lemma demoHuge_url: "urlParams demoHuge = [(''page'', ''1e+21'')]"
  by (simp add: demoHuge_value urlParams_def huge_plus huge_print)

text \<open>
  C5 as stated fails: the URL \<open>?page=1000000000000000000000\<close> mounts the page with
  the page index \<open>1e21\<close>, which the page encodes as \<open>page=1e+21\<close>; read again, that is
  the page index 0, encoded as \<open>page=1\<close>.
\<close>

theorem url_roundtrip_counterexample:
  "reachable demoHuge
   \<and> pageIndex (pagination demoHuge) = Fin 1000000000000000000000
   \<and> urlParams demoHuge = [(''page'', ''1e+21'')]
   \<and> pageIndex (pagination (initialState (urlParams demoHuge) (JObj []))) = Fin 0
   \<and> urlParams (initialState (urlParams demoHuge) (JObj [])) = [(''page'', ''1'')]"
proof -
  have r: "reachable demoHuge" unfolding demoHuge_def by (rule reachable.mounted)
  have decoded: "initialState (urlParams demoHuge) (JObj []) =
     \<lparr>searchQuery = [], statusFilter = ''all'',
      pagination = \<lparr>pageIndex = Fin 0, tablePageSize = 10\<rparr>,
      columnVisibility = JObj [], sorting = [],
      debouncedSearchQuery = []\<rparr>"
    by (simp add: demoHuge_url initialState_def orElse_def exponent_parse numAdd_def
          roundDouble_safe)
  have again: "urlParams (initialState (urlParams demoHuge) (JObj [])) = [(''page'', ''1'')]"
    unfolding decoded by (simp add: urlParams_def numAdd_def roundDouble_safe one_print)
  have first: "pageIndex (pagination demoHuge) = Fin 1000000000000000000000"
    by (simp add: demoHuge_value)
  have second: "pageIndex (pagination (initialState (urlParams demoHuge) (JObj []))) = Fin 0"
    unfolding decoded by simp
  from r first demoHuge_url second again show ?thesis by blast
qed

text \<open>
  C4, as the code has it. The key of the list query is built from the page index,
  the page size, the debounced search text and the status filter, and from nothing
  else: two states equal in these four have the same key and read the same query,
  so that where the first finds its key cached the second fetches nothing; two
  states with the same key ask for the same page number, page size, search text and
  status; and neither a change of the sorting nor one of the column visibility
  changes the key.
\<close>

theorem cache_key_fields:
  "(pageIndex (pagination s1) = pageIndex (pagination s2)
      \<and> tablePageSize (pagination s1) = tablePageSize (pagination s2)
      \<and> debouncedSearchQuery s1 = debouncedSearchQuery s2
      \<and> statusFilter s1 = statusFilter s2
    \<longrightarrow> userQueryKeys_list (queryParams s1) = userQueryKeys_list (queryParams s2)
        \<and> useUsers c (queryParams s1) = useUsers c (queryParams s2)
        \<and> (map_of c (userQueryKeys_list (queryParams s1)) = Some q
             \<and> qdata q \<noteq> JUndefined \<and> \<not> isInvalidated q
           \<longrightarrow> \<not> readFetches c (userQueryKeys_list (queryParams s2))
               \<and> useUsers c (queryParams s2) = qdata q))
   \<and> (userQueryKeys_list (queryParams s1) = userQueryKeys_list (queryParams s2)
    \<longrightarrow> page (queryParams s1) = page (queryParams s2)
        \<and> tablePageSize (pagination s1) = tablePageSize (pagination s2)
        \<and> debouncedSearchQuery s1 = debouncedSearchQuery s2
        \<and> statusFilter s1 = statusFilter s2)
   \<and> userQueryKeys_list (queryParams (setSorting srt s1)) = userQueryKeys_list (queryParams s1)
   \<and> userQueryKeys_list (queryParams (setColumnVisibility v s1))
       = userQueryKeys_list (queryParams s1)"
  by (auto simp add: userQueryKeys_list_def queryParams_def useUsers_def readFetches_def
        setSorting_def setColumnVisibility_def)

text \<open>
  C4 as stated fails: the sort order is no part of the key. Two states that differ in
  their sorting have the same key.
\<close>

theorem cache_key_counterexample:
  "sorting (setSorting [(''email'', True)] demoView) \<noteq> sorting demoView
   \<and> userQueryKeys_list (queryParams (setSorting [(''email'', True)] demoView))
       = userQueryKeys_list (queryParams demoView)"
  by (simp add: demoView_value setSorting_def queryParams_def)

theorem cache_key_fields_witness:
  "userQueryKeys_list (queryParams (setSorting [] demoView))
     = userQueryKeys_list (queryParams demoView)
   \<and> \<not> readFetches
         [(userQueryKeys_list (queryParams demoView),
           \<lparr>qdata = demoResponse, fetching = False, isInvalidated = False, active = True\<rparr>)]
         (userQueryKeys_list (queryParams (setSorting [] demoView)))"
proof -
  let ?q = "\<lparr>qdata = demoResponse, fetching = False, isInvalidated = False, active = True\<rparr>"
  let ?k = "userQueryKeys_list (queryParams demoView)"
  have m: "map_of [(?k, ?q)] ?k = Some ?q" by simp
  have d: "qdata ?q \<noteq> JUndefined" by (simp add: demoResponse_def)
  have i: "\<not> isInvalidated ?q" by simp
  have e: "pageIndex (pagination demoView) = pageIndex (pagination (setSorting [] demoView))
      \<and> tablePageSize (pagination demoView) = tablePageSize (pagination (setSorting [] demoView))
      \<and> debouncedSearchQuery demoView = debouncedSearchQuery (setSorting [] demoView)
      \<and> statusFilter demoView = statusFilter (setSorting [] demoView)"
    by (simp add: setSorting_def)
  from cache_key_fields[of demoView "setSorting [] demoView" "[(?k, ?q)]" ?q "[]" JNull]
  have "userQueryKeys_list (queryParams (setSorting [] demoView)) = ?k
      \<and> \<not> readFetches [(?k, ?q)] (userQueryKeys_list (queryParams (setSorting [] demoView)))"
    using m d i e by blast
  then show ?thesis .
qed

text \<open>
  What the handlers do to the page index: a change of the status filter and a
  change of the search input each set it to 0, so that the fetch derived next asks
  for page 1; the settlement of the search text, a change of the sorting and a
  change of the column visibility leave the pagination as it is.
\<close>

lemma handlers_pageIndex:
  "pageIndex (pagination (handleStatusFilterChange v s)) = Fin 0
   \<and> page (queryParams (handleStatusFilterChange v s)) = Fin 1
   \<and> pageIndex (pagination (handleSearchChange v s)) = Fin 0
   \<and> page (queryParams (handleSearchChange v s)) = Fin 1
   \<and> pagination (debounceSettle s) = pagination s
   \<and> pagination (setSorting srt s) = pagination s
   \<and> pagination (setColumnVisibility vis s) = pagination s"
  by (simp add: handleStatusFilterChange_def handleSearchChange_def debounceSettle_def
        setSorting_def setColumnVisibility_def queryParams_def numAdd_def roundDouble_safe)

text \<open>
  C6 fails on the code, which resets the page at the keystroke and not at the
  settlement. From an empty URL, after the keystroke \<open>a\<close> and a change to the second
  page within the quiet interval, the search text \<open>a\<close> settles while the page index
  is 1, and the page index stays 1: the fetch derived next asks for page 2 of the
  new search, against the handler's own comment (reset to first page when
  searching) and against what a change of the status filter does.
\<close>

theorem search_settles_off_first_page:
  "reachable demoRace
   \<and> pageIndex (pagination demoRace) = Fin 1
   \<and> debouncedSearchQuery demoRace = []
   \<and> debouncedSearchQuery (debounceSettle demoRace) = ''a''
   \<and> pageIndex (pagination (debounceSettle demoRace)) = Fin 1
   \<and> queryParams (debounceSettle demoRace)
       = \<lparr>page = Fin 2, pageSize = 10, query = ''a'', status = ''all''\<rparr>"
proof -
  have "isDouble (pageIndex \<lparr>pageIndex = Fin 1, tablePageSize = 10\<rparr>)"
    by (simp add: isDouble_def roundDouble_safe)
  then have "reachable demoRace"
    unfolding demoRace_def by (intro reachable.paged reachable.typed reachable.mounted)
  then show ?thesis
    by (simp add: demoRace_def handlePaginationChange_def handleSearchChange_def
          debounceSettle_def initialState_def orElse_def queryParams_def numAdd_def
          roundDouble_safe)
qed

text \<open>
  C9. When reading the stored column visibility throws, or the stored string does not
  parse, the page mounts all the same, in the state it has with the default
  visibility \<open>{}\<close>, under which every column is visible, and the failure is logged
  with \<open>console.warn\<close>.
\<close>

theorem storage_fallback:
  assumes "getItem ''users-table-column-visibility'' = None
         \<or> (\<exists>item. item \<noteq> [] \<and> getItem ''users-table-column-visibility'' = Some (Some item)
                    \<and> jsonParse item = None)"
  shows "mount searchParams getItem jsonParse
           = (initialState searchParams (JObj []), [ReadWarning ''users-table-column-visibility''])
       \<and> columnVisibility (fst (mount searchParams getItem jsonParse)) = JObj []
       \<and> (\<forall>col. columnVisible (columnVisibility (fst (mount searchParams getItem jsonParse))) col)"
proof -
  from assms have
    "useLocalStorage getItem jsonParse ''users-table-column-visibility'' (JObj [])
       = (JObj [], [ReadWarning ''users-table-column-visibility''])"
    by (auto simp add: useLocalStorage_def)
  then have m: "mount searchParams getItem jsonParse
           = (initialState searchParams (JObj []), [ReadWarning ''users-table-column-visibility''])"
    by (simp add: mount_def)
  show ?thesis
    unfolding m by (simp add: initialState_def columnVisible_def optChain_def)
qed

theorem storage_fallback_witness:
  "mount [] (\<lambda>k. Some (Some ''{oops'')) (\<lambda>s. None)
     = (initialState [] (JObj []), [ReadWarning ''users-table-column-visibility''])
   \<and> mount [] (\<lambda>k. None) (\<lambda>s. Some JNull)
     = (initialState [] (JObj []), [ReadWarning ''users-table-column-visibility''])"
  using storage_fallback[of "\<lambda>k. Some (Some ''{oops'')" "\<lambda>s. None" "[]"]
    storage_fallback[of "\<lambda>k. None" "\<lambda>s. Some JNull" "[]"]
  by simp

end
